theory Spec2Isabelle
  imports Complex_Main "HOL-Library.Multiset"
begin

section \<open>JavaScript numbers\<close>

text \<open>
  The \<open>amount\<close> of an expense is a JavaScript \<open>number\<close>, an IEEE-754 binary64 value.
  A finite value is carried as the rational it denotes; the two infinities and NaN are
  separate constructors. Negative zero is not distinguished from zero: no operation of
  the page (\<open>isNaN\<close>, \<open><=\<close>, \<open>+\<close>, \<open>-\<close>, truthiness) tells them apart.
  Every arithmetic result is rounded to the nearest binary64 value, ties to even, with
  gradual underflow (quantum \<open>2^-1074\<close>) and overflow to infinity at \<open>2^1024\<close>.
\<close>

datatype number = NaN | PInf | NInf | Fin rat

definition pow2 :: "int \<Rightarrow> rat" where
  "pow2 p = (if 0 \<le> p then 2 ^ nat p else 1 / 2 ^ nat (- p))"

definition pow10 :: "int \<Rightarrow> rat" where
  "pow10 p = (if 0 \<le> p then 10 ^ nat p else 1 / 10 ^ nat (- p))"

text \<open>The number of binary digits of a positive integer (0 for the others).\<close>

function bit_length :: "int \<Rightarrow> int" where
  "bit_length a = (if a \<le> 0 then 0 else 1 + bit_length (a div 2))"
  by pat_completeness auto
termination
  by (relation "measure nat") auto

declare bit_length.simps [simp del]

text \<open>\<open>ilog2 q\<close> is the integer \<open>e\<close> with \<open>2^e \<le> q < 2^(e+1)\<close>, for positive \<open>q\<close>.\<close>

definition ilog2 :: "rat \<Rightarrow> int" where
  "ilog2 q =
     (if 1 \<le> q then bit_length \<lfloor>q\<rfloor> - 1 else - bit_length (\<lceil>1 / q\<rceil> - 1))"

definition round_half_even :: "rat \<Rightarrow> int" where
  "round_half_even m =
     (let f = \<lfloor>m\<rfloor>; r = m - of_int f
      in if r < 1 / 2 then f
         else if 1 / 2 < r then f + 1
         else if even f then f else f + 1)"

text \<open>The quantum of the binade of \<open>q\<close>: 53 significant bits, never below \<open>2^-1074\<close>.\<close>

definition quantum :: "rat \<Rightarrow> int" where
  "quantum q = max (ilog2 q - 52) (- 1074)"

definition round_pos :: "rat \<Rightarrow> number" where
  "round_pos q =
     (let p = quantum q;
          v = of_int (round_half_even (q / pow2 p)) * pow2 p
      in if 2 ^ 1024 \<le> v then PInf else Fin v)"

fun num_neg :: "number \<Rightarrow> number" where
  "num_neg NaN = NaN"
| "num_neg PInf = NInf"
| "num_neg NInf = PInf"
| "num_neg (Fin q) = Fin (- q)"

definition round_double :: "rat \<Rightarrow> number" where
  "round_double q =
     (if q = 0 then Fin 0
      else if 0 < q then round_pos q
      else num_neg (round_pos (- q)))"

text \<open>The binary \<open>+\<close> and \<open>-\<close> of two numbers.\<close>

fun num_add :: "number \<Rightarrow> number \<Rightarrow> number" where
  "num_add NaN _ = NaN"
| "num_add _ NaN = NaN"
| "num_add PInf NInf = NaN"
| "num_add NInf PInf = NaN"
| "num_add PInf _ = PInf"
| "num_add _ PInf = PInf"
| "num_add NInf _ = NInf"
| "num_add _ NInf = NInf"
| "num_add (Fin a) (Fin b) = round_double (a + b)"


fun isNaN :: "number \<Rightarrow> bool" where
  "isNaN NaN = True"
| "isNaN _ = False"

text \<open>\<open>x <= 0\<close>, \<open>x < 0\<close> and \<open>x > 0\<close>; every comparison with NaN is false.\<close>

fun le_zero :: "number \<Rightarrow> bool" where
  "le_zero NaN = False"
| "le_zero PInf = False"
| "le_zero NInf = True"
| "le_zero (Fin q) = (q \<le> 0)"

fun lt_zero :: "number \<Rightarrow> bool" where
  "lt_zero NaN = False"
| "lt_zero PInf = False"
| "lt_zero NInf = True"
| "lt_zero (Fin q) = (q < 0)"

fun gt_zero :: "number \<Rightarrow> bool" where
  "gt_zero NaN = False"
| "gt_zero PInf = True"
| "gt_zero NInf = False"
| "gt_zero (Fin q) = (0 < q)"

section \<open>Strings\<close>

text \<open>
  A string is a list of characters, and a character is the code unit of that number,
  from 0 to 255. The strings of the page whose code units are all below 256 are the
  ones represented. The characters that \<open>String.prototype.trim\<close> and \<open>parseFloat\<close> skip
  as white space are, among these, TAB, LF, VT, FF, CR, SPACE and the no-break space
  U+00A0.
\<close>

definition is_ws :: "char \<Rightarrow> bool" where
  "is_ws c = ((of_char c :: nat) \<in> {9, 10, 11, 12, 13, 32, 160})"

definition trim :: "string \<Rightarrow> string" where
  "trim s = rev (dropWhile is_ws (rev (dropWhile is_ws s)))"

definition is_digit :: "char \<Rightarrow> bool" where
  "is_digit c = (48 \<le> (of_char c :: nat) \<and> (of_char c :: nat) \<le> 57)"

definition digit_val :: "char \<Rightarrow> int" where
  "digit_val c = of_char c - 48"

definition digits_val :: "string \<Rightarrow> int" where
  "digits_val ds = foldl (\<lambda>n c. 10 * n + digit_val c) 0 ds"

definition digit_char :: "int \<Rightarrow> char" where
  "digit_char n = ''0123456789'' ! nat (n mod 10)"

text \<open>
  \<open>Number.prototype.toString\<close> on an integer below \<open>10^21\<close>, as every time value is:
  its decimal numeral.
\<close>

function string_of_nat :: "int \<Rightarrow> string" where
  "string_of_nat n =
     (if n < 10 then [digit_char n]
      else string_of_nat (n div 10) @ [digit_char (n mod 10)])"
  by pat_completeness auto
termination
  by (relation "measure nat") auto

declare string_of_nat.simps [simp del]

definition string_of_int :: "int \<Rightarrow> string" where
  "string_of_int i =
     (if i < 0 then CHR ''-'' # string_of_nat (- i) else string_of_nat i)"

subsection \<open>parseFloat\<close>

text \<open>
  \<open>parseFloat\<close> skips leading white space and reads the longest prefix that is a
  \<open>StrDecimalLiteral\<close>: an optional sign, then \<open>Infinity\<close> or decimal digits with an
  optional fraction and an optional exponent. What follows the prefix is ignored; with
  no such prefix the result is NaN. The value of the prefix is rounded to binary64.
\<close>

text \<open>The value of an \<open>ExponentPart\<close> at the head of the string, 0 when there is none.\<close>

definition parse_exponent :: "string \<Rightarrow> int" where
  "parse_exponent s =
     (case s of
        [] \<Rightarrow> 0
      | e # rest \<Rightarrow>
          if e = CHR ''e'' \<or> e = CHR ''E'' then
            (case rest of
               [] \<Rightarrow> 0
             | c # ds \<Rightarrow>
                 if c = CHR ''-'' \<and> takeWhile is_digit ds \<noteq> []
                   then - digits_val (takeWhile is_digit ds)
                 else if c = CHR ''+'' \<and> takeWhile is_digit ds \<noteq> []
                   then digits_val (takeWhile is_digit ds)
                 else digits_val (takeWhile is_digit rest))
          else 0)"

definition parse_unsigned :: "string \<Rightarrow> number" where
  "parse_unsigned s =
     (if take 8 s = ''Infinity'' then PInf
      else
        let ip = takeWhile is_digit s;
            r1 = dropWhile is_digit s;
            fp = (case r1 of [] \<Rightarrow> []
                  | c # r \<Rightarrow> if c = CHR ''.'' then takeWhile is_digit r else []);
            r2 = (case r1 of [] \<Rightarrow> []
                  | c # r \<Rightarrow> if c = CHR ''.'' then dropWhile is_digit r else r1)
        in if ip = [] \<and> fp = [] then NaN
           else round_double
                  ((of_int (digits_val ip) + of_int (digits_val fp) / 10 ^ length fp)
                   * pow10 (parse_exponent r2)))"

definition parseFloat :: "string \<Rightarrow> number" where
  "parseFloat s =
     (case dropWhile is_ws s of
        [] \<Rightarrow> NaN
      | c # r \<Rightarrow>
          if c = CHR ''-'' then num_neg (parse_unsigned r)
          else if c = CHR ''+'' then parse_unsigned r
          else parse_unsigned (c # r))"

section \<open>Dates\<close>

text \<open>
  A \<open>Date\<close> holds a time value: milliseconds since 1970-01-01T00:00:00Z. The calendar
  of a day number (days since the epoch) is the proleptic Gregorian one.
\<close>

definition msPerDay :: int where
  "msPerDay = 86400000"

text \<open>Year, month (1 to 12) and day of the month of a day number.\<close>

definition civil_from_days :: "int \<Rightarrow> int \<times> int \<times> int" where
  "civil_from_days z0 =
     (let z = z0 + 719468;
          era = z div 146097;
          doe = z - era * 146097;
          yoe = (doe - doe div 1460 + doe div 36524 - doe div 146096) div 365;
          doy = doe - (365 * yoe + yoe div 4 - yoe div 100);
          mp = (5 * doy + 2) div 153;
          d = doy - (153 * mp + 2) div 5 + 1;
          m = (if mp < 10 then mp + 3 else mp - 9);
          y = yoe + era * 400
      in (if m \<le> 2 then y + 1 else y, m, d))"

text \<open>The day number of a year, a month (1 to 12) and a day of the month.\<close>

definition days_from_civil :: "int \<Rightarrow> int \<Rightarrow> int \<Rightarrow> int" where
  "days_from_civil y0 m d =
     (let y = (if m \<le> 2 then y0 - 1 else y0);
          era = y div 400;
          yoe = y - era * 400;
          doy = (153 * (if 2 < m then m - 3 else m + 9) + 2) div 5 + d - 1;
          doe = yoe * 365 + yoe div 4 - yoe div 100 + doy
      in era * 146097 + doe - 719468)"

text \<open>
  \<open>new Date(s)\<close> for a string \<open>s\<close> of the date-only form \<open>YYYY-MM-DD\<close>, the one the
  page writes: midnight UTC of that day. A month from 01 to 12 and a day from 01 to 31
  are accepted, and a day after the last of its month runs on into the next month, as
  in V8 (\<open>2024-02-30\<close> is 1 March). The result is \<open>None\<close> for an invalid date (time
  value NaN). The forms with a time of day, and the other texts that an engine accepts,
  are not represented: for them \<open>Date_parse\<close> is not the result of the engine, and no
  statement below is about a record with such a date.
\<close>

definition Date_parse :: "string \<Rightarrow> int option" where
  "Date_parse s =
     (if length s = 10 \<and> s ! 4 = CHR ''-'' \<and> s ! 7 = CHR ''-''
         \<and> list_all is_digit (take 4 s)
         \<and> list_all is_digit (take 2 (drop 5 s))
         \<and> list_all is_digit (drop 8 s)
      then
        let y = digits_val (take 4 s);
            m = digits_val (take 2 (drop 5 s));
            d = digits_val (drop 8 s)
        in if 1 \<le> m \<and> m \<le> 12 \<and> 1 \<le> d \<and> d \<le> 31
           then Some (days_from_civil y m d * msPerDay)
           else None
      else None)"

text \<open>
  \<open>getMonth\<close> (0 to 11) and \<open>getFullYear\<close> read the date in local time: the time value
  plus the offset of the local time zone at that instant, \<open>tza t\<close>, in milliseconds
  (positive east of Greenwich).
\<close>

definition getMonth :: "(int \<Rightarrow> int) \<Rightarrow> int \<Rightarrow> int" where
  "getMonth tza t = fst (snd (civil_from_days ((t + tza t) div msPerDay))) - 1"

definition getFullYear :: "(int \<Rightarrow> int) \<Rightarrow> int \<Rightarrow> int" where
  "getFullYear tza t = fst (civil_from_days ((t + tza t) div msPerDay))"

text \<open>A decimal numeral padded with zeros on the left to \<open>k\<close> digits.\<close>

definition pad :: "nat \<Rightarrow> int \<Rightarrow> string" where
  "pad k n = replicate (k - length (string_of_nat n)) CHR ''0'' @ string_of_nat n"

text \<open>\<open>toISOString\<close>: the UTC date and time, \<open>YYYY-MM-DDTHH:mm:ss.sssZ\<close>.\<close>

definition toISOString :: "int \<Rightarrow> string" where
  "toISOString t =
     (let ymd = civil_from_days (t div msPerDay);
          y = fst ymd; m = fst (snd ymd); d = snd (snd ymd);
          ms = t mod msPerDay
      in (if 0 \<le> y \<and> y \<le> 9999 then pad 4 y
          else (if y < 0 then CHR ''-'' else CHR ''+'') # pad 6 \<bar>y\<bar>)
         @ ''-'' @ pad 2 m @ ''-'' @ pad 2 d @ ''T''
         @ pad 2 (ms div 3600000) @ '':'' @ pad 2 (ms div 60000 mod 60) @ '':''
         @ pad 2 (ms div 1000 mod 60) @ ''.'' @ pad 3 (ms mod 1000) @ ''Z'')"

text \<open>\<open>s.split("T")[0]\<close>: what comes before the first \<open>T\<close>.\<close>

definition before_T :: "string \<Rightarrow> string" where
  "before_T s = takeWhile (\<lambda>c. c \<noteq> CHR ''T'') s"

section \<open>The expense tracker\<close>

record Expense =
  ident :: string
  description :: string
  amount :: number
  category :: string
  date :: string

definition CATEGORIES :: "string list" where
  "CATEGORIES =
     [''Food'', ''Transport'', ''Entertainment'', ''Shopping'', ''Utilities'',
      ''Healthcare'', ''Other'']"

text \<open>
  The state of the component: the list of expenses and the three form fields. The field
  \<open>id\<close> of an expense is \<open>ident\<close> here, and the form fields carry the suffix \<open>_st\<close>.
\<close>

record Index_state =
  expenses :: "Expense list"
  description_st :: string
  amount_st :: string
  category_st :: string

datatype variant = Default | Destructive

text \<open>A notification: title, description and variant.\<close>

datatype toast = Toast string string variant

text \<open>
  \<open>addExpense\<close>, with the two readings of the clock it makes: \<open>now_id\<close> is
  \<open>Date.now()\<close> and \<open>now_date\<close> the time value of \<open>new Date()\<close>. It returns the
  notification it shows and the next state.
\<close>

definition addExpense :: "int \<Rightarrow> int \<Rightarrow> Index_state \<Rightarrow> toast \<times> Index_state" where
  "addExpense now_id now_date s =
     (if trim (description_st s) = [] \<or> trim (amount_st s) = [] then
        (Toast ''Error'' ''Please fill in all fields'' Destructive, s)
      else
        let numAmount = parseFloat (amount_st s) in
        if isNaN numAmount \<or> le_zero numAmount then
          (Toast ''Error'' ''Please enter a valid amount'' Destructive, s)
        else
          let newExpense =
                \<lparr> ident = string_of_int now_id,
                  description = trim (description_st s),
                  amount = numAmount,
                  category = category_st s,
                  date = before_T (toISOString now_date) \<rparr>
          in (Toast ''Success'' ''Expense added successfully'' Default,
              s \<lparr> expenses := newExpense # expenses s,
                  description_st := [],
                  amount_st := [],
                  category_st := ''Food'' \<rparr>))"

definition deleteExpense :: "string \<Rightarrow> Index_state \<Rightarrow> toast \<times> Index_state" where
  "deleteExpense i s =
     (Toast ''Deleted'' ''Expense removed successfully'' Default,
      s \<lparr> expenses := filter (\<lambda>exp. ident exp \<noteq> i) (expenses s) \<rparr>)"

subsection \<open>Aggregates\<close>

definition totalExpenses :: "Expense list \<Rightarrow> number" where
  "totalExpenses xs = foldl (\<lambda>sum exp. num_add sum (amount exp)) (Fin 0) xs"

text \<open>
  \<open>monthlyExpenses\<close>, with the local time zone \<open>tza\<close> and the time value \<open>today\<close> of
  \<open>new Date()\<close>; the filter reads the clock for every record, and the readings of one
  pass are taken to be the same instant. A record whose date is invalid has month NaN
  and is left out.
\<close>

definition in_month :: "(int \<Rightarrow> int) \<Rightarrow> int \<Rightarrow> Expense \<Rightarrow> bool" where
  "in_month tza today e =
     (case Date_parse (date e) of
        None \<Rightarrow> False
      | Some expDate \<Rightarrow>
          getMonth tza expDate = getMonth tza today \<and>
          getFullYear tza expDate = getFullYear tza today)"

definition monthlyExpenses :: "(int \<Rightarrow> int) \<Rightarrow> int \<Rightarrow> Expense list \<Rightarrow> number" where
  "monthlyExpenses tza today xs =
     foldl (\<lambda>sum exp. num_add sum (amount exp)) (Fin 0) (filter (in_month tza today) xs)"




text \<open>
  \<open>Array.prototype.sort\<close> is stable; a comparator result NaN counts as 0. With a
  consistent comparator every stable sort gives the list that insertion gives.
\<close>

fun insert_sorted :: "('a \<Rightarrow> 'a \<Rightarrow> number) \<Rightarrow> 'a \<Rightarrow> 'a list \<Rightarrow> 'a list" where
  "insert_sorted cmp x [] = [x]"
| "insert_sorted cmp x (y # ys) =
     (if gt_zero (cmp x y) then y # insert_sorted cmp x ys else x # y # ys)"

definition js_sort :: "('a \<Rightarrow> 'a \<Rightarrow> number) \<Rightarrow> 'a list \<Rightarrow> 'a list" where
  "js_sort cmp xs = foldr (insert_sorted cmp) xs []"


subsection \<open>Sequences of operations\<close>

text \<open>
  What the user does: fill the form with a description, an amount and a category and
  press the button, at the clock readings \<open>now_id\<close> and \<open>now_date\<close>; or press the
  delete button of the record with a given id. Each event is handled on the state that
  the previous one left.
\<close>

datatype event = Add string string string int int | Delete string

fun step :: "event \<Rightarrow> Index_state \<Rightarrow> Index_state" where
  "step (Add d a c now_id now_date) s =
     snd (addExpense now_id now_date
            (s \<lparr> description_st := d, amount_st := a, category_st := c \<rparr>))"
| "step (Delete i) s = snd (deleteExpense i s)"

definition run :: "event list \<Rightarrow> Index_state \<Rightarrow> Index_state" where
  "run evs s = foldl (\<lambda>s' ev. step ev s') s evs"

text \<open>The state of \<open>useState\<close> at the first render.\<close>

definition initial :: Index_state where
  "initial = \<lparr> expenses = [], description_st = [], amount_st = [], category_st = ''Food'' \<rparr>"

text \<open>The readings of \<open>Date.now()\<close> at the additions of a sequence of events.\<close>

fun add_times :: "event list \<Rightarrow> int list" where
  "add_times [] = []"
| "add_times (Add d a c now_id now_date # evs) = now_id # add_times evs"
| "add_times (Delete i # evs) = add_times evs"

subsection \<open>Exact sums\<close>

text \<open>
  For comparison with the sums the page computes: the rational value of a finite
  number, the rationals that are binary64 values, and the lists whose running sums,
  taken from the left, are all binary64 values.
\<close>

fun isFin :: "number \<Rightarrow> bool" where
  "isFin (Fin q) = True"
| "isFin _ = False"

fun value_of :: "number \<Rightarrow> rat" where
  "value_of (Fin q) = q"
| "value_of _ = 0"

definition is_binary64 :: "rat \<Rightarrow> bool" where
  "is_binary64 q = (round_double q = Fin q)"

fun running_exact :: "rat \<Rightarrow> rat list \<Rightarrow> bool" where
  "running_exact acc [] = True"
| "running_exact acc (q # qs) = (is_binary64 (acc + q) \<and> running_exact (acc + q) qs)"

definition amounts :: "Expense list \<Rightarrow> rat list" where
  "amounts xs = map (\<lambda>e. value_of (amount e)) xs"

subsection \<open>The sum of a category\<close>









subsection \<open>Persistence\<close>

text \<open>
  The value that \<open>JSON.stringify\<close> writes and \<open>JSON.parse\<close> reads. A number of the JSON
  text is carried by the binary64 value it denotes.
\<close>

datatype json =
  JNull | JBool bool | JNumber rat | JString string | JArray "json list"
  | JObject "(string \<times> json) list"

text \<open>
  A string of the store is carried by what \<open>JSON.parse\<close> makes of it: the value it
  denotes, or a syntax error. The empty string, which the page does not hand to
  \<open>JSON.parse\<close>, is among the malformed ones; the page treats both alike. That
  \<open>JSON.parse\<close> gives back the value whose text \<open>JSON.stringify\<close> wrote is a property of
  the two library functions and is built into this representation.
\<close>

datatype slot_text = Denotes json | Malformed

type_synonym localStorage = "(string \<times> slot_text) list"

definition getItem :: "string \<Rightarrow> localStorage \<Rightarrow> slot_text option" where
  "getItem k st = map_of st k"

definition setItem :: "string \<Rightarrow> slot_text \<Rightarrow> localStorage \<Rightarrow> localStorage" where
  "setItem k v st = (k, v) # filter (\<lambda>p. fst p \<noteq> k) st"

text \<open>\<open>JSON.stringify\<close> writes \<open>null\<close> for a number that is not finite.\<close>

fun json_of_number :: "number \<Rightarrow> json" where
  "json_of_number (Fin q) = JNumber q"
| "json_of_number _ = JNull"

definition json_of_expense :: "Expense \<Rightarrow> json" where
  "json_of_expense e =
     JObject [(''id'', JString (ident e)),
              (''description'', JString (description e)),
              (''amount'', json_of_number (amount e)),
              (''category'', JString (category e)),
              (''date'', JString (date e))]"

definition JSON_stringify :: "Expense list \<Rightarrow> slot_text" where
  "JSON_stringify xs = Denotes (JArray (map json_of_expense xs))"

text \<open>
  The parsed value becomes the state without any check. When it is an array of objects
  with the five properties of an expense, of the right types, the state is that list of
  expenses; otherwise the state is a value that is not a list of expenses.
\<close>

definition expense_of_json :: "json \<Rightarrow> Expense option" where
  "expense_of_json j =
     (case j of
        JObject ps \<Rightarrow>
          (case (map_of ps ''id'', map_of ps ''description'', map_of ps ''amount'',
                 map_of ps ''category'', map_of ps ''date'') of
             (Some (JString i), Some (JString d), Some (JNumber a), Some (JString c),
              Some (JString t)) \<Rightarrow>
               Some \<lparr> ident = i, description = d, amount = Fin a, category = c, date = t \<rparr>
           | _ \<Rightarrow> None)
      | _ \<Rightarrow> None)"

definition expenses_of_json :: "json \<Rightarrow> Expense list option" where
  "expenses_of_json j =
     (case j of
        JArray js \<Rightarrow> those (map expense_of_json js)
      | _ \<Rightarrow> None)"

text \<open>
  The effect that loads, run on the state \<open>expenses0\<close> (the empty list at the first
  render): \<open>Inr\<close> the list of expenses of the next state, \<open>Inl\<close> a parsed value that is
  not a list of expenses.
\<close>

definition load :: "localStorage \<Rightarrow> Expense list \<Rightarrow> json + Expense list" where
  "load st expenses0 =
     (case getItem ''expenses'' st of
        None \<Rightarrow> Inr expenses0
      | Some Malformed \<Rightarrow> Inr expenses0
      | Some (Denotes j) \<Rightarrow>
          (case expenses_of_json j of Some xs \<Rightarrow> Inr xs | None \<Rightarrow> Inl j))"

text \<open>The effect that saves.\<close>

definition save :: "Expense list \<Rightarrow> localStorage \<Rightarrow> localStorage" where
  "save xs st = setItem ''expenses'' (JSON_stringify xs) st"

subsection \<open>Decimal literals\<close>

text \<open>
  For comparison with \<open>parseFloat\<close>: the unsigned decimal literals of the grammar
  \<open>StrUnsignedDecimalLiteral\<close> other than \<open>Infinity\<close>, as data. A literal has digits before
  the point, maybe a point with digits after it, and maybe an exponent: the letter, a
  sign text and digits. There must be a digit before the point or after it.
\<close>

datatype fraction = NoFrac | Frac string

datatype exponent = NoExp | Exp char string string

datatype literal = Literal string fraction exponent

fun frac_text :: "fraction \<Rightarrow> string" where
  "frac_text NoFrac = []"
| "frac_text (Frac fp) = CHR ''.'' # fp"

fun exp_text :: "exponent \<Rightarrow> string" where
  "exp_text NoExp = []"
| "exp_text (Exp e sg es) = e # sg @ es"

fun lit_text :: "literal \<Rightarrow> string" where
  "lit_text (Literal ip f x) = ip @ frac_text f @ exp_text x"

fun frac_digits :: "fraction \<Rightarrow> string" where
  "frac_digits NoFrac = []"
| "frac_digits (Frac fp) = fp"

fun exp_ok :: "exponent \<Rightarrow> bool" where
  "exp_ok NoExp = True"
| "exp_ok (Exp e sg es) =
     ((e = CHR ''e'' \<or> e = CHR ''E'') \<and> (sg = [] \<or> sg = ''+'' \<or> sg = ''-'')
      \<and> es \<noteq> [] \<and> list_all is_digit es)"

fun lit_ok :: "literal \<Rightarrow> bool" where
  "lit_ok (Literal ip f x) =
     (list_all is_digit ip \<and> list_all is_digit (frac_digits f) \<and> exp_ok x
      \<and> (ip \<noteq> [] \<or> frac_digits f \<noteq> []))"

text \<open>
  The value of a string of digits, most significant digit first, and the mathematical
  value of a literal.
\<close>

fun decimal_rev :: "string \<Rightarrow> int" where
  "decimal_rev [] = 0"
| "decimal_rev (c # cs) = (of_char c - 48) + 10 * decimal_rev cs"

definition decimal :: "string \<Rightarrow> int" where
  "decimal ds = decimal_rev (rev ds)"

fun exp_value :: "exponent \<Rightarrow> int" where
  "exp_value NoExp = 0"
| "exp_value (Exp e sg es) = (if sg = ''-'' then - decimal es else decimal es)"

fun lit_value :: "literal \<Rightarrow> rat" where
  "lit_value (Literal ip f x) =
     (of_int (decimal ip) + of_int (decimal (frac_digits f)) / 10 ^ length (frac_digits f))
     * (if 0 \<le> exp_value x then 10 ^ nat (exp_value x) else 1 / 10 ^ nat (- exp_value x))"

text \<open>
  A string starts with an exponent part: \<open>e\<close> or \<open>E\<close>, then a digit, or a sign and a
  digit.
\<close>

fun starts_exponent :: "string \<Rightarrow> bool" where
  "starts_exponent (e # c # d # r) =
     ((e = CHR ''e'' \<or> e = CHR ''E'')
      \<and> (is_digit c \<or> ((c = CHR ''+'' \<or> c = CHR ''-'') \<and> is_digit d)))"
| "starts_exponent [e, c] = ((e = CHR ''e'' \<or> e = CHR ''E'') \<and> is_digit c)"
| "starts_exponent [e] = False"
| "starts_exponent [] = False"

text \<open>
  The literal is the longest one at the head of the text \<open>lit_text l @ r\<close>: what follows
  does not go on with a digit, nor with an exponent part when the literal has none,
  nor with a point when the literal has neither point nor exponent.
\<close>

fun stops :: "literal \<Rightarrow> string \<Rightarrow> bool" where
  "stops (Literal ip f x) r =
     ((r = [] \<or> \<not> is_digit (hd r))
      \<and> (x \<noteq> NoExp \<or> \<not> starts_exponent r)
      \<and> (f \<noteq> NoFrac \<or> x \<noteq> NoExp \<or> r = [] \<or> hd r \<noteq> CHR ''.''))"

section \<open>Evaluation of closed terms\<close>

lemma floor_numeral_frac: "\<lfloor>numeral a / numeral b :: rat\<rfloor> = numeral a div numeral b"
  using floor_divide_of_int_eq [of "numeral a" "numeral b", where ?'a = rat] by simp

lemma ceiling_numeral_frac:
  "\<lceil>numeral a / numeral b :: rat\<rceil> = - ((- numeral a) div numeral b)"
  using floor_divide_of_int_eq [of "- numeral a" "numeral b", where ?'a = rat]
  by (simp add: ceiling_def)

lemmas round_eval =
  round_double_def round_pos_def quantum_def ilog2_def pow2_def round_half_even_def
  bit_length.simps Let_def floor_numeral_frac ceiling_numeral_frac

lemmas parse_eval =
  parseFloat_def parse_unsigned_def parse_exponent_def is_ws_def is_digit_def
  digits_val_def digit_val_def pow10_def

lemma parseFloat_10: "parseFloat ''10'' = Fin 10"
  by (simp add: parse_eval round_eval cong: let_weak_cong)

lemma parseFloat_minus_5: "parseFloat ''-5'' = Fin (- 5)"
  by (simp add: parse_eval round_eval cong: let_weak_cong)

lemma parseFloat_abc: "parseFloat ''abc'' = NaN"
  by (simp add: parse_eval)

lemma parseFloat_10abc: "parseFloat ''10abc'' = Fin 10"
  by (simp add: parse_eval round_eval cong: let_weak_cong)

lemma parseFloat_Infinity: "parseFloat ''Infinity'' = PInf"
  by (simp add: parse_eval)

lemma trim_empty_iff: "trim s = [] \<longleftrightarrow> dropWhile is_ws s = []"
proof
  assume "trim s = []"
  then have "dropWhile is_ws (rev (dropWhile is_ws s)) = []"
    by (simp add: trim_def)
  then have all: "\<forall>c \<in> set (dropWhile is_ws s). is_ws c"
    by simp
  show "dropWhile is_ws s = []"
  proof (cases "dropWhile is_ws s")
    case Nil
    then show ?thesis .
  next
    case (Cons c cs)
    then have "\<not> is_ws c"
      using hd_dropWhile [of is_ws s] by simp
    with all Cons show ?thesis by simp
  qed
next
  assume e: "dropWhile is_ws s = []"
  show "trim s = []" unfolding trim_def e by simp
qed

lemma parseFloat_blank: "trim s = [] \<Longrightarrow> parseFloat s = NaN"
  unfolding trim_empty_iff parseFloat_def by (simp del: dropWhile_eq_Nil_conv)

lemma gt_zero_iff: "gt_zero n \<longleftrightarrow> \<not> isNaN n \<and> \<not> le_zero n"
  by (cases n) auto

lemma gt_zero_parseFloat_not_blank: "gt_zero (parseFloat s) \<Longrightarrow> trim s \<noteq> []"
  using parseFloat_blank [of s] by auto

lemma parseFloat_examples:
  "parseFloat '' 12px'' = Fin 12"
  "parseFloat ''.5'' = Fin (1 / 2)"
  "parseFloat ''5.'' = Fin 5"
  "parseFloat ''1e3'' = Fin 1000"
  "parseFloat ''1e'' = Fin 1"
  "parseFloat ''2.5e-1x'' = Fin (1 / 4)"
  "parseFloat ''-.5'' = Fin (- (1 / 2))"
  "parseFloat ''+7'' = Fin 7"
  "parseFloat ''-'' = NaN"
  "parseFloat ''.'' = NaN"
  "parseFloat ''e5'' = NaN"
  "parseFloat ''+-5'' = NaN"
  "parseFloat ''-Infinity'' = NInf"
  "parseFloat ''infinity'' = NaN"
  "parseFloat '''' = NaN"
  by (simp_all add: parse_eval round_eval cong: let_weak_cong)

lemma trim_examples:
  "trim ''  a b  '' = ''a b''"
  "trim [CHR 0x09, CHR ''x'', CHR 0x0A] = ''x''"
  "trim ''   '' = []"
  "trim [CHR 0xA0] = []"
  "trim (''Coffee'' @ [CHR 0xA0]) = ''Coffee''"
  by (simp_all add: trim_def is_ws_def)

lemma parseFloat_no_break_space: "parseFloat (CHR 0xA0 # ''5'') = Fin 5"
  by (simp add: parse_eval round_eval cong: let_weak_cong)

section \<open>Decimal numerals are injective\<close>

lemma digit_char_inj:
  assumes "0 \<le> a" "a < 10" "0 \<le> b" "b < 10" "digit_char a = digit_char b"
  shows "a = b"
proof -
  have d: "distinct ''0123456789''" by simp
  have "nat a < length ''0123456789''" "nat b < length ''0123456789''"
    using assms by auto
  with d assms(5) have "nat a = nat b"
    using assms(1-4) by (simp add: digit_char_def nth_eq_iff_index_eq)
  with assms show ?thesis by simp
qed

lemma digit_char_is_digit: "is_digit (digit_char n)"
proof -
  define k where "k = nat (n mod 10)"
  have "k < 10" by (simp add: k_def)
  then have "k = 0 \<or> k = 1 \<or> k = 2 \<or> k = 3 \<or> k = 4 \<or> k = 5 \<or> k = 6 \<or> k = 7
      \<or> k = 8 \<or> k = 9"
    by arith
  then have "is_digit (''0123456789'' ! k)"
    by (auto simp add: is_digit_def)
  then show ?thesis
    by (simp add: digit_char_def k_def)
qed

lemma string_of_nat_not_Nil: "string_of_nat n \<noteq> []"
  by (subst string_of_nat.simps) simp

lemma string_of_nat_digits: "list_all is_digit (string_of_nat n)"
proof (induction n rule: string_of_nat.induct)
  case (1 n)
  show ?case
  proof (cases "n < 10")
    case True
    then show ?thesis
      by (subst string_of_nat.simps) (simp add: digit_char_is_digit)
  next
    case False
    with 1 show ?thesis
      by (subst string_of_nat.simps) (simp add: digit_char_is_digit)
  qed
qed

lemma string_of_nat_inj:
  "0 \<le> n \<Longrightarrow> 0 \<le> m \<Longrightarrow> string_of_nat n = string_of_nat m \<Longrightarrow> n = m"
proof (induction n arbitrary: m rule: string_of_nat.induct)
  case (1 n)
  show ?case
  proof (cases "n < 10")
    case n: True
    show ?thesis
    proof (cases "m < 10")
      case True
      with n 1(2,3,4) show ?thesis
        by (simp add: string_of_nat.simps [of n] string_of_nat.simps [of m] digit_char_inj)
    next
      case False
      with n 1(4) have "[digit_char n] = string_of_nat (m div 10) @ [digit_char (m mod 10)]"
        by (simp add: string_of_nat.simps [of n] string_of_nat.simps [of m])
      then show ?thesis
        using string_of_nat_not_Nil [of "m div 10"] by (simp add: Cons_eq_append_conv)
    qed
  next
    case n: False
    show ?thesis
    proof (cases "m < 10")
      case True
      with n 1(4) have "string_of_nat (n div 10) @ [digit_char (n mod 10)] = [digit_char m]"
        by (simp add: string_of_nat.simps [of n] string_of_nat.simps [of m])
      then show ?thesis
        using string_of_nat_not_Nil [of "n div 10"] by (simp add: append_eq_Cons_conv)
    next
      case False
      with n 1(4) have e: "string_of_nat (n div 10) = string_of_nat (m div 10)"
        and l: "digit_char (n mod 10) = digit_char (m mod 10)"
        by (simp_all add: string_of_nat.simps [of n] string_of_nat.simps [of m])
      from l have "n mod 10 = m mod 10"
        by (intro digit_char_inj) simp_all
      moreover from 1(1) [OF n _ _ e] 1(2,3) have "n div 10 = m div 10" by simp
      ultimately show ?thesis
        by (metis mult_div_mod_eq)
    qed
  qed
qed

lemma string_of_int_inj: "string_of_int i = string_of_int j \<Longrightarrow> i = j"
proof -
  have nodash: "hd (string_of_nat n) \<noteq> CHR ''-''" for n
  proof -
    have "is_digit (hd (string_of_nat n))"
      using string_of_nat_digits [of n] string_of_nat_not_Nil [of n]
      by (cases "string_of_nat n") simp_all
    then show ?thesis by (auto simp add: is_digit_def)
  qed
  assume e: "string_of_int i = string_of_int j"
  show ?thesis
  proof (cases "i < 0")
    case i: True
    show ?thesis
    proof (cases "j < 0")
      case True
      with i e have "string_of_nat (- i) = string_of_nat (- j)"
        by (simp add: string_of_int_def)
      with i True have "- i = - j" by (intro string_of_nat_inj) simp_all
      then show ?thesis by simp
    next
      case False
      with i e have "CHR ''-'' # string_of_nat (- i) = string_of_nat j"
        by (simp add: string_of_int_def)
      then have "hd (string_of_nat j) = CHR ''-''" by (metis list.sel(1))
      with nodash show ?thesis by blast
    qed
  next
    case i: False
    show ?thesis
    proof (cases "j < 0")
      case True
      with i e have "string_of_nat i = CHR ''-'' # string_of_nat (- j)"
        by (simp add: string_of_int_def)
      then have "hd (string_of_nat i) = CHR ''-''" by simp
      with nodash show ?thesis by blast
    next
      case False
      with i e have "string_of_nat i = string_of_nat j"
        by (simp add: string_of_int_def)
      with i False show ?thesis by (intro string_of_nat_inj) simp_all
    qed
  qed
qed

section \<open>The doubles nearest to 0.1, 0.2 and 0.3\<close>

lemma round_double_01: "round_double (1 / 10) = Fin (3602879701896397 / 36028797018963968)"
  by (simp add: round_eval cong: let_weak_cong)

lemma round_double_02: "round_double (2 / 10) = Fin (3602879701896397 / 18014398509481984)"
  by (simp add: round_eval cong: let_weak_cong)

lemma round_double_03: "round_double (3 / 10) = Fin (5404319552844595 / 18014398509481984)"
  by (simp add: round_eval cong: let_weak_cong)

lemma parseFloat_01: "parseFloat ''0.1'' = Fin (3602879701896397 / 36028797018963968)"
  using round_double_01 by (simp add: parse_eval)

lemma parseFloat_02: "parseFloat ''0.2'' = Fin (3602879701896397 / 18014398509481984)"
  using round_double_02 by (simp add: parse_eval)

lemma parseFloat_03: "parseFloat ''0.3'' = Fin (5404319552844595 / 18014398509481984)"
  using round_double_03 by (simp add: parse_eval)

section \<open>Properties of rounding\<close>

lemma bit_length_bounds:
  "0 < a \<Longrightarrow> 1 \<le> bit_length a \<and> 2 ^ nat (bit_length a - 1) \<le> a \<and> a < 2 ^ nat (bit_length a)"
proof (induction a rule: bit_length.induct)
  case (1 a)
  have bl: "bit_length a = 1 + bit_length (a div 2)"
    using "1.prems" by (subst bit_length.simps) simp
  show ?case
  proof (cases "a div 2 = 0")
    case True
    with "1.prems" have "a = 1" by presburger
    then show ?thesis
      by (simp add: bit_length.simps [of 1] bit_length.simps [of 0])
  next
    case False
    with "1.prems" have pos: "0 < a div 2" by presburger
    from "1.IH" [OF _ pos] "1.prems"
    have k: "1 \<le> bit_length (a div 2)"
      and lo: "2 ^ nat (bit_length (a div 2) - 1) \<le> a div 2"
      and hi: "a div 2 < 2 ^ nat (bit_length (a div 2))"
      by simp_all
    define k where "k = nat (bit_length (a div 2) - 1)"
    have k1: "nat (bit_length (a div 2)) = Suc k"
      using k by (simp add: k_def)
    have k2: "nat (bit_length a - 1) = Suc k" "nat (bit_length a) = Suc (Suc k)"
      using k by (simp_all add: bl k_def)
    have half: "2 * (a div 2) \<le> a" "a \<le> 2 * (a div 2) + 1"
      by presburger+
    from lo have "2 * 2 ^ k \<le> 2 * (a div 2)"
      by (simp add: k_def)
    with half(1) have lo': "(2::int) ^ Suc k \<le> a" by simp
    from hi have "a div 2 + 1 \<le> 2 ^ Suc k"
      by (simp add: k1)
    then have "2 * (a div 2) + 2 \<le> 2 * 2 ^ Suc k" by simp
    with half(2) have hi': "a < 2 ^ Suc (Suc k)" by simp
    have "1 \<le> bit_length a"
      using k by (simp add: bl)
    with lo' hi' show ?thesis
      unfolding k2 by blast
  qed
qed

lemma pow2_pos: "0 < pow2 p"
  by (simp add: pow2_def)

lemma pow2_power_int: "pow2 p = power_int 2 p"
  by (simp add: pow2_def power_int_def field_simps)

lemma pow2_add: "pow2 (a + b) = pow2 a * pow2 b"
  by (simp add: pow2_power_int power_int_add)

lemma pow2_mono: "a \<le> b \<Longrightarrow> pow2 a \<le> pow2 b"
  by (simp add: pow2_power_int power_int_increasing)

lemma pow2_ilog2_le:
  assumes "0 < q"
  shows "pow2 (ilog2 q) \<le> q"
proof (cases "1 \<le> q")
  case True
  then have f: "0 < \<lfloor>q\<rfloor>" by simp
  from bit_length_bounds [OF f]
  have k: "1 \<le> bit_length \<lfloor>q\<rfloor>" and lo: "2 ^ nat (bit_length \<lfloor>q\<rfloor> - 1) \<le> \<lfloor>q\<rfloor>"
    by simp_all
  from lo have "rat_of_int (2 ^ nat (bit_length \<lfloor>q\<rfloor> - 1)) \<le> of_int \<lfloor>q\<rfloor>"
    by (simp only: of_int_le_iff)
  also have "\<dots> \<le> q" by simp
  finally show ?thesis
    using True k by (simp add: ilog2_def pow2_def)
next
  case False
  with assms have r: "1 < 1 / q" by simp
  define c where "c = \<lceil>1 / q\<rceil>"
  have c: "2 \<le> c"
    using r unfolding c_def by (simp add: le_ceiling_iff)
  then have pos: "0 < c - 1" by simp
  from bit_length_bounds [OF pos]
  have k: "1 \<le> bit_length (c - 1)" and hi: "c - 1 < 2 ^ nat (bit_length (c - 1))"
    by simp_all
  define k where "k = nat (bit_length (c - 1))"
  from hi have ck: "c \<le> 2 ^ k" by (simp add: k_def)
  have "1 / q \<le> of_int c"
    by (simp add: c_def)
  also have "\<dots> \<le> of_int (2 ^ k)"
    using ck by (simp only: of_int_le_iff)
  also have "\<dots> = 2 ^ k" by simp
  finally have "1 / q \<le> 2 ^ k" .
  with assms have "1 / 2 ^ k \<le> q"
    by (simp add: field_simps)
  moreover have "pow2 (ilog2 q) = 1 / 2 ^ k"
    using False k by (simp add: ilog2_def pow2_def c_def k_def)
  ultimately show ?thesis by simp
qed


lemma round_pos_cases:
  "round_pos q = PInf \<or>
   round_pos q = Fin (of_int (round_half_even (q / pow2 (quantum q))) * pow2 (quantum q))"
  by (simp add: round_pos_def Let_def)




section \<open>The grid of binary64 values and the sign of a difference\<close>

















section \<open>The totals of the categories\<close>












section \<open>The rounding is to nearest, with 53 bits\<close>

lemma pow2_Suc: "pow2 (p + 1) = 2 * pow2 p"
  using pow2_add [of p 1] by (simp add: pow2_def)

lemma ilog2_upper:
  assumes "0 < q"
  shows "q < pow2 (ilog2 q + 1)"
proof (cases "1 \<le> q")
  case True
  then have f: "0 < \<lfloor>q\<rfloor>" by simp
  from bit_length_bounds [OF f]
  have k: "1 \<le> bit_length \<lfloor>q\<rfloor>" and hi: "\<lfloor>q\<rfloor> < 2 ^ nat (bit_length \<lfloor>q\<rfloor>)"
    by simp_all
  from hi have "\<lfloor>q\<rfloor> + 1 \<le> 2 ^ nat (bit_length \<lfloor>q\<rfloor>)" by simp
  then have "rat_of_int (\<lfloor>q\<rfloor> + 1) \<le> of_int (2 ^ nat (bit_length \<lfloor>q\<rfloor>))"
    by (simp only: of_int_le_iff)
  moreover have "q < of_int (\<lfloor>q\<rfloor> + 1)"
    by linarith
  ultimately have "q < of_int (2 ^ nat (bit_length \<lfloor>q\<rfloor>))"
    by (rule less_le_trans [rotated])
  then show ?thesis
    using True k by (simp add: ilog2_def pow2_def)
next
  case False
  with assms have r: "1 < 1 / q" by simp
  define c where "c = \<lceil>1 / q\<rceil>"
  have c: "2 \<le> c"
    using r unfolding c_def by (simp add: le_ceiling_iff)
  then have pos: "0 < c - 1" by simp
  from bit_length_bounds [OF pos]
  have k: "1 \<le> bit_length (c - 1)" and lo: "2 ^ nat (bit_length (c - 1) - 1) \<le> c - 1"
    by simp_all
  define j where "j = nat (bit_length (c - 1) - 1)"
  have "rat_of_int (2 ^ j) \<le> of_int (c - 1)"
    using lo unfolding j_def by (simp only: of_int_le_iff)
  moreover have "rat_of_int (c - 1) < 1 / q"
    unfolding c_def by linarith
  ultimately have "2 ^ j < 1 / q" by simp
  with assms have "q * 2 ^ j < 1"
    by (simp add: field_simps)
  then have "q < 1 / 2 ^ j"
    by (simp add: field_simps)
  moreover have "pow2 (ilog2 q + 1) = 1 / 2 ^ j"
  proof -
    have "ilog2 q + 1 = - int j"
      using False k by (simp add: ilog2_def c_def j_def)
    then show ?thesis
      by (simp add: pow2_def)
  qed
  ultimately show ?thesis by simp
qed

lemma round_half_even_nearest: "\<bar>of_int (round_half_even m) - m\<bar> \<le> 1 / 2"
proof -
  define r where "r = m - of_int \<lfloor>m\<rfloor>"
  have r: "0 \<le> r" "r < 1"
    unfolding r_def by linarith+
  have m: "m = of_int \<lfloor>m\<rfloor> + r"
    by (simp add: r_def)
  consider "r < 1 / 2" | "1 / 2 < r" | "r = 1 / 2" by linarith
  then show ?thesis
  proof cases
    case 1
    then have "round_half_even m = \<lfloor>m\<rfloor>"
      by (simp add: round_half_even_def Let_def r_def)
    with 1 r show ?thesis
      by (simp add: r_def)
  next
    case 2
    then have "round_half_even m = \<lfloor>m\<rfloor> + 1"
      by (simp add: round_half_even_def Let_def r_def)
    then have "of_int (round_half_even m) - m = 1 - r"
      by (simp add: r_def)
    with 2 r show ?thesis by simp
  next
    case 3
    then have "round_half_even m = \<lfloor>m\<rfloor> \<or> round_half_even m = \<lfloor>m\<rfloor> + 1"
      by (simp add: round_half_even_def Let_def r_def)
    then have "of_int (round_half_even m) - m = - r \<or> of_int (round_half_even m) - m = 1 - r"
      by (auto simp add: r_def)
    with 3 show ?thesis by auto
  qed
qed

lemma round_half_even_of_int: "round_half_even (of_int k) = k"
  by (simp add: round_half_even_def Let_def)

lemma round_half_even_mono_bound:
  "m \<le> of_int n \<Longrightarrow> round_half_even m \<le> n"
proof -
  assume m: "m \<le> of_int n"
  show ?thesis
  proof (cases "m = of_int n")
    case True
    then show ?thesis by (simp add: round_half_even_of_int)
  next
    case False
    with m have "m < of_int n" by simp
    then have "\<lfloor>m\<rfloor> < n" by (simp add: floor_less_iff)
    then show ?thesis
      by (simp add: round_half_even_def Let_def)
  qed
qed

text \<open>The rounded value has at most 53 significant bits (its mantissa is at most \<open>2^53\<close>).\<close>

lemma round_pos_mantissa:
  assumes "0 < q"
  shows "round_half_even (q / pow2 (quantum q)) \<le> 2 ^ 53"
proof -
  have "ilog2 q + 1 \<le> quantum q + 53"
    by (simp add: quantum_def)
  then have "pow2 (ilog2 q + 1) \<le> pow2 (quantum q + 53)"
    by (rule pow2_mono)
  also have "\<dots> = pow2 (quantum q) * pow2 53"
    by (rule pow2_add)
  finally have "q < pow2 (quantum q) * pow2 53"
    using ilog2_upper [OF assms] by simp
  then have "q / pow2 (quantum q) < pow2 53"
    using pow2_pos [of "quantum q"] by (simp add: field_simps)
  then have "q / pow2 (quantum q) \<le> of_int (2 ^ 53)"
    by (simp add: pow2_def)
  then show ?thesis
    by (rule round_half_even_mono_bound)
qed

text \<open>The rounded value is within half a quantum of the exact one.\<close>

lemma round_pos_error:
  assumes "round_pos q = Fin v"
  shows "\<bar>v - q\<bar> \<le> pow2 (quantum q) / 2"
proof -
  define p where "p = pow2 (quantum q)"
  have p: "0 < p" by (simp add: p_def pow2_pos)
  from assms round_pos_cases [of q]
  have v: "v = of_int (round_half_even (q / p)) * p"
    by (simp add: p_def)
  have "v - q = (of_int (round_half_even (q / p)) - q / p) * p"
    using p by (simp add: v left_diff_distrib)
  then have "\<bar>v - q\<bar> = \<bar>of_int (round_half_even (q / p)) - q / p\<bar> * \<bar>p\<bar>"
    by (simp only: abs_mult)
  also have "\<bar>p\<bar> = p" using p by simp
  finally have "\<bar>v - q\<bar> = \<bar>of_int (round_half_even (q / p)) - q / p\<bar> * p" .
  also have "\<dots> \<le> 1 / 2 * p"
    using round_half_even_nearest [of "q / p"] p by (intro mult_right_mono) simp_all
  finally show ?thesis by (simp add: p_def)
qed

text \<open>An integer below \<open>2^53\<close> is a binary64 value.\<close>

lemma is_binary64_int:
  assumes "0 \<le> n" "n < 2 ^ 53"
  shows "is_binary64 (of_int n)"
proof (cases "n = 0")
  case True
  then show ?thesis by (simp add: is_binary64_def round_double_def)
next
  case False
  with assms have n: "0 < n" by simp
  define q where "q = rat_of_int n"
  have q: "0 < q" using n by (simp add: q_def)
  have "pow2 (ilog2 q) \<le> q" by (rule pow2_ilog2_le [OF q])
  also have "q < pow2 53"
    using assms(2) unfolding q_def pow2_def
    by (simp only: of_int_less_iff [symmetric, where ?'a = rat]) simp
  finally have "pow2 (ilog2 q) < pow2 53" .
  then have "ilog2 q < 53"
    using pow2_mono [of 53 "ilog2 q"] by (cases "ilog2 q < 53") auto
  then have le0: "quantum q \<le> 0"
    by (simp add: quantum_def)
  define j where "j = nat (- quantum q)"
  have pq: "pow2 (quantum q) = 1 / 2 ^ j"
    using le0 by (cases "quantum q = 0") (simp_all add: pow2_def j_def)
  have "q / pow2 (quantum q) = q * 2 ^ j"
    by (simp add: pq)
  also have "\<dots> = of_int (n * 2 ^ j)"
    by (simp add: q_def)
  finally have "round_half_even (q / pow2 (quantum q)) = n * 2 ^ j"
    by (simp only: round_half_even_of_int)
  then have "of_int (round_half_even (q / pow2 (quantum q))) * pow2 (quantum q) =
      of_int (n * 2 ^ j) * (1 / 2 ^ j)"
    by (simp only: pq)
  also have "\<dots> = q"
    by (simp add: q_def)
  finally have v: "of_int (round_half_even (q / pow2 (quantum q))) * pow2 (quantum q) = q" .
  have "q < 2 ^ 1024"
  proof -
    have "pow2 53 \<le> pow2 1024" by (rule pow2_mono) simp
    with \<open>q < pow2 53\<close> show ?thesis by (simp add: pow2_def)
  qed
  with v have "round_pos q = Fin q"
    by (simp add: round_pos_def Let_def)
  with q show ?thesis
    by (simp add: is_binary64_def round_double_def q_def)
qed

section \<open>The calendar on some days\<close>

lemma civil_from_days_examples:
  "civil_from_days 0 = (1970, 1, 1)"
  "civil_from_days (- 1) = (1969, 12, 31)"
  "civil_from_days 11016 = (2000, 2, 29)"
  "civil_from_days (- 25508) = (1900, 3, 1)"
  "civil_from_days (- 25509) = (1900, 2, 28)"
  "civil_from_days 19782 = (2024, 2, 29)"
  "civil_from_days 20088 = (2024, 12, 31)"
  "civil_from_days 47541 = (2100, 3, 1)"
  by (simp_all add: civil_from_days_def Let_def cong: let_weak_cong)

lemma days_from_civil_examples:
  "days_from_civil 1970 1 1 = 0"
  "days_from_civil 1969 12 31 = - 1"
  "days_from_civil 2000 2 29 = 11016"
  "days_from_civil 1900 3 1 = - 25508"
  "days_from_civil 1900 2 28 = - 25509"
  "days_from_civil 2024 2 29 = 19782"
  "days_from_civil 2024 12 31 = 20088"
  "days_from_civil 2100 3 1 = 47541"
  by (simp_all add: days_from_civil_def Let_def cong: let_weak_cong)

lemma Date_parse_examples:
  "Date_parse ''2024-02-01'' = Some 1706745600000"
  "Date_parse ''2024-02-30'' = Some 1709251200000"
  "Date_parse ''2024-13-01'' = None"
  "Date_parse ''2024-02-00'' = None"
  "Date_parse ''2024-02-32'' = None"
  "Date_parse ''yesterday'' = None"
  by (simp_all add: Date_parse_def days_from_civil_def is_digit_def digits_val_def
      digit_val_def msPerDay_def Let_def cong: let_weak_cong)

section \<open>parseFloat reads the longest literal\<close>

lemma takeWhile_digits:
  "list_all is_digit ds \<Longrightarrow> r = [] \<or> \<not> is_digit (hd r) \<Longrightarrow> takeWhile is_digit (ds @ r) = ds"
  by (induction ds) (cases r; auto)+

lemma dropWhile_digits:
  "list_all is_digit ds \<Longrightarrow> r = [] \<or> \<not> is_digit (hd r) \<Longrightarrow> dropWhile is_digit (ds @ r) = r"
  by (induction ds) (cases r; auto)+

lemma digits_val_snoc: "digits_val (ds @ [c]) = 10 * digits_val ds + digit_val c"
  by (simp add: digits_val_def)

lemma digits_val_decimal: "digits_val ds = decimal ds"
  by (induction ds rule: rev_induct)
    (simp_all add: digits_val_snoc decimal_def digit_val_def, simp add: digits_val_def)

lemma not_digit_chars:
  "\<not> is_digit CHR ''.''" "\<not> is_digit CHR ''e''" "\<not> is_digit CHR ''E''"
  "\<not> is_digit CHR ''+''" "\<not> is_digit CHR ''-''" "\<not> is_digit CHR ''I''"
  by (simp_all add: is_digit_def)

lemma not_ws_chars:
  "\<not> is_ws CHR ''.''" "\<not> is_ws CHR ''+''" "\<not> is_ws CHR ''-''"
  by (simp_all add: is_ws_def)

lemma digit_not_ws: "is_digit c \<Longrightarrow> \<not> is_ws c"
  by (auto simp add: is_digit_def is_ws_def)

lemma digit_neq:
  "is_digit c \<Longrightarrow> c \<noteq> CHR ''.'' \<and> c \<noteq> CHR ''+'' \<and> c \<noteq> CHR ''-'' \<and> c \<noteq> CHR ''I''
     \<and> c \<noteq> CHR ''e'' \<and> c \<noteq> CHR ''E''"
  using not_digit_chars by auto

lemma parse_exponent_none: "\<not> starts_exponent r \<Longrightarrow> parse_exponent r = 0"
proof (cases r rule: starts_exponent.cases)
  case (1 e c d r')
  assume n: "\<not> starts_exponent r"
  with 1 have "\<not> (e = CHR ''e'' \<or> e = CHR ''E'') \<or> (\<not> is_digit c \<and> \<not> ((c = CHR ''+'' \<or> c = CHR ''-'') \<and> is_digit d))"
    by auto
  then show ?thesis
    using 1 by (auto simp add: parse_exponent_def digits_val_def)
next
  case (2 e c)
  assume "\<not> starts_exponent r"
  with 2 show ?thesis
    by (auto simp add: parse_exponent_def digits_val_def)
next
  case 4
  then show ?thesis by (simp add: parse_exponent_def)
next
  case (3 v)
  then show ?thesis by (simp add: parse_exponent_def digits_val_def)
qed

lemma parse_exponent_some:
  assumes "exp_ok (Exp e sg es)" "r = [] \<or> \<not> is_digit (hd r)"
  shows "parse_exponent (exp_text (Exp e sg es) @ r) = exp_value (Exp e sg es)"
proof -
  from assms(1) obtain c cs where es: "es = c # cs" and c: "is_digit c"
    and ds: "list_all is_digit es"
    by (cases es) auto
  have tw: "takeWhile is_digit (es @ r) = es"
    using ds assms(2) by (rule takeWhile_digits)
  from assms(1) consider "sg = []" | "sg = ''+''" | "sg = ''-''" by auto
  then show ?thesis
  proof cases
    case 1
    have "parse_exponent (e # es @ r) = digits_val (takeWhile is_digit (es @ r))"
      using assms(1) c digit_neq [OF c] by (auto simp add: parse_exponent_def es)
    with 1 tw show ?thesis
      by (simp add: digits_val_decimal)
  next
    case 2
    have "parse_exponent (e # CHR ''+'' # es @ r) = digits_val (takeWhile is_digit (es @ r))"
      using assms(1) tw by (auto simp add: parse_exponent_def es)
    with 2 tw show ?thesis
      by (simp add: digits_val_decimal)
  next
    case 3
    have "parse_exponent (e # CHR ''-'' # es @ r) = - digits_val (takeWhile is_digit (es @ r))"
      using assms(1) tw by (auto simp add: parse_exponent_def es)
    with 3 tw show ?thesis
      by (simp add: digits_val_decimal)
  qed
qed
lemma pow10_exp_value:
  "pow10 k = (if 0 \<le> k then 10 ^ nat k else 1 / 10 ^ nat (- k))"
  by (simp add: pow10_def)

lemma parse_unsigned_literal:
  assumes ok: "lit_ok l" and st: "stops l r"
  shows "parse_unsigned (lit_text l @ r) = round_double (lit_value l)"
proof -
  obtain ip f x where l: "l = Literal ip f x" by (cases l)
  from ok l have ip: "list_all is_digit ip" and fd: "list_all is_digit (frac_digits f)"
    and xo: "exp_ok x" and some: "ip \<noteq> [] \<or> frac_digits f \<noteq> []"
    by simp_all
  from st l have r: "r = [] \<or> \<not> is_digit (hd r)"
    and rx: "x = NoExp \<longrightarrow> \<not> starts_exponent r"
    and rf: "f = NoFrac \<longrightarrow> x = NoExp \<longrightarrow> r = [] \<or> hd r \<noteq> CHR ''.''"
    by auto
  define t2 where "t2 = exp_text x @ r"
  define t1 where "t1 = frac_text f @ t2"
  have whole: "lit_text (Literal ip f x) @ r = ip @ t1"
    by (simp add: t1_def t2_def)
  have t2_head: "t2 = [] \<or> \<not> is_digit (hd t2)"
  proof (cases x)
    case NoExp
    with r show ?thesis by (simp add: t2_def)
  next
    case (Exp e sg es)
    with xo show ?thesis
      by (auto simp add: t2_def not_digit_chars)
  qed
  have pe: "parse_exponent t2 = exp_value x"
  proof (cases x)
    case NoExp
    with rx show ?thesis by (simp add: t2_def parse_exponent_none)
  next
    case (Exp e sg es)
    with xo r show ?thesis
      unfolding t2_def by (simp only: parse_exponent_some)
  qed
  have t1_head: "t1 = [] \<or> \<not> is_digit (hd t1)"
    using t2_head by (cases f) (simp_all add: t1_def not_digit_chars)
  have tw: "takeWhile is_digit (ip @ t1) = ip" and dw: "dropWhile is_digit (ip @ t1) = t1"
    using ip t1_head by (simp_all only: takeWhile_digits dropWhile_digits)
  have first: "take 8 (ip @ t1) \<noteq> ''Infinity''"
  proof (cases ip)
    case (Cons c cs)
    with ip have "c \<noteq> CHR ''I''" using digit_neq [of c] by simp
    with Cons show ?thesis by auto
  next
    case Nil
    with some obtain fp where "f = Frac fp" by (cases f) auto
    with Nil show ?thesis by (simp add: t1_def)
  qed
  have nodot: "t1 = [] \<or> hd t1 \<noteq> CHR ''.''" if "f = NoFrac"
  proof (cases x)
    case NoExp
    with rf that show ?thesis by (simp add: t1_def t2_def)
  next
    case (Exp e sg es)
    with xo that show ?thesis by (auto simp add: t1_def t2_def)
  qed
  have fp: "(case t1 of [] \<Rightarrow> [] | c # r' \<Rightarrow> if c = CHR ''.'' then takeWhile is_digit r' else [])
      = frac_digits f"
  proof (cases f)
    case NoFrac
    with nodot show ?thesis by (cases t1) auto
  next
    case (Frac ds)
    with fd t2_head show ?thesis
      by (simp add: t1_def takeWhile_digits)
  qed
  have r2: "parse_exponent (case t1 of [] \<Rightarrow> [] | c # r' \<Rightarrow> if c = CHR ''.'' then dropWhile is_digit r' else t1)
      = exp_value x"
  proof (cases f)
    case NoFrac
    then have "t1 = t2" by (simp add: t1_def)
    with nodot [OF NoFrac] pe show ?thesis by (cases t1) auto
  next
    case (Frac ds)
    with fd t2_head pe show ?thesis
      by (simp add: t1_def dropWhile_digits)
  qed
  have "parse_unsigned (ip @ t1) =
      round_double ((of_int (digits_val ip)
          + of_int (digits_val (frac_digits f)) / 10 ^ length (frac_digits f))
        * pow10 (exp_value x))"
  proof -
    have n: "\<not> (ip = [] \<and> frac_digits f = [])" using some by blast
    show ?thesis
      unfolding parse_unsigned_def Let_def tw dw fp r2
      by (simp only: first n if_False)
  qed
  then show ?thesis
    by (simp only: l whole lit_value.simps digits_val_decimal pow10_exp_value)
qed

lemma dropWhile_ws:
  "list_all is_ws w \<Longrightarrow> s \<noteq> [] \<Longrightarrow> \<not> is_ws (hd s) \<Longrightarrow> dropWhile is_ws (w @ s) = s"
  by (induction w) (cases s; auto)+

lemma lit_text_head:
  assumes "lit_ok l"
  shows "lit_text l \<noteq> [] \<and> (is_digit (hd (lit_text l)) \<or> hd (lit_text l) = CHR ''.'')"
proof -
  obtain ip f x where l: "l = Literal ip f x" by (cases l)
  show ?thesis
  proof (cases ip)
    case (Cons c cs)
    with assms l show ?thesis by simp
  next
    case Nil
    with assms l obtain fp where "f = Frac fp" by (cases f) auto
    with Nil l show ?thesis by simp
  qed
qed

lemma parseFloat_literal:
  assumes "lit_ok l" "stops l r" "list_all is_ws w" "sg = [] \<or> sg = ''+'' \<or> sg = ''-''"
  shows "parseFloat (w @ sg @ lit_text l @ r) =
     (if sg = ''-'' then num_neg (round_double (lit_value l)) else round_double (lit_value l))"
proof -
  from lit_text_head [OF assms(1)] obtain c cs where t: "lit_text l = c # cs"
    and c: "is_digit c \<or> c = CHR ''.''"
    by (cases "lit_text l") auto
  from c have cw: "\<not> is_ws c" and cs: "c \<noteq> CHR ''+''" "c \<noteq> CHR ''-''"
    using digit_not_ws [of c] digit_neq [of c] not_ws_chars by auto
  have pu: "parse_unsigned (c # cs @ r) = round_double (lit_value l)"
    using parse_unsigned_literal [OF assms(1,2)] by (simp add: t)
  have "sg @ lit_text l @ r \<noteq> []" "\<not> is_ws (hd (sg @ lit_text l @ r))"
    using assms(4) cw by (auto simp add: t not_ws_chars)
  with assms(3) have "dropWhile is_ws (w @ sg @ lit_text l @ r) = sg @ lit_text l @ r"
    by (rule dropWhile_ws)
  then have "parseFloat (w @ sg @ lit_text l @ r) =
      (case sg @ c # cs @ r of [] \<Rightarrow> NaN
       | a # b \<Rightarrow> if a = CHR ''-'' then num_neg (parse_unsigned b)
                  else if a = CHR ''+'' then parse_unsigned b else parse_unsigned (a # b))"
    by (simp add: parseFloat_def t)
  with assms(4) pu cs show ?thesis
    by auto
qed

section \<open>Adding an expense\<close>

text \<open>
  For every valid input (a description that is not empty after trimming and an amount
  that \<open>parseFloat\<close> reads as a number greater than zero), \<open>addExpense\<close> reports success,
  makes the list one record longer and puts the new record first, before the old
  records in their old order; the new record carries the trimmed description, the
  parsed amount, the chosen category, the decimal numeral of \<open>Date.now()\<close> as its id and,
  as its date, the calendar date that the instant of \<open>new Date()\<close> has in UTC.
\<close>

lemma addExpense_success:
  assumes "trim (description_st s) \<noteq> []"
    and "gt_zero (parseFloat (amount_st s))"
  shows "addExpense now_id now_date s =
      (Toast ''Success'' ''Expense added successfully'' Default,
       s \<lparr> expenses :=
             \<lparr> ident = string_of_int now_id,
               description = trim (description_st s),
               amount = parseFloat (amount_st s),
               category = category_st s,
               date = before_T (toISOString now_date) \<rparr> # expenses s,
           description_st := [], amount_st := [], category_st := ''Food'' \<rparr>)
    \<and> length (expenses (snd (addExpense now_id now_date s))) = Suc (length (expenses s))
    \<and> hd (expenses (snd (addExpense now_id now_date s))) =
         \<lparr> ident = string_of_int now_id,
           description = trim (description_st s),
           amount = parseFloat (amount_st s),
           category = category_st s,
           date = before_T (toISOString now_date) \<rparr>
    \<and> tl (expenses (snd (addExpense now_id now_date s))) = expenses s"
  using assms gt_zero_parseFloat_not_blank [of "amount_st s"]
  by (simp add: addExpense_def gt_zero_iff Let_def)

text \<open>
  C1 says that the new record is first in the list, one record more, and carries the
  trimmed description, the parsed amount, the chosen category and the date of today.
  The date that \<open>addExpense\<close> stores is the one of \<open>toISOString\<close>, the date in UTC, while
  the day of the user, which the page itself reads with the local getters when it
  sums the month, is the local one. At the instant 1730682000000, five hours west of
  Greenwich, it is 20:00 on 3 November 2024, and the record that is added is dated 4
  November.
\<close>

theorem addExpense_date_not_local:
  "civil_from_days ((1730682000000 + (- 18000000)) div msPerDay) = (2024, 11, 3)
   \<and> addExpense 1730682000000 1730682000000
        \<lparr> expenses = [], description_st = ''Coffee'', amount_st = ''10'',
          category_st = ''Food'' \<rparr> =
      (Toast ''Success'' ''Expense added successfully'' Default,
       \<lparr> expenses =
           [\<lparr> ident = ''1730682000000'', description = ''Coffee'', amount = Fin 10,
              category = ''Food'', date = ''2024-11-04'' \<rparr>],
         description_st = [], amount_st = [], category_st = ''Food'' \<rparr>)"
proof -
  have l: "civil_from_days ((1730682000000 + (- 18000000)) div msPerDay) = (2024, 11, 3)"
    by (simp add: civil_from_days_def msPerDay_def Let_def cong: let_weak_cong)
  have d: "trim ''Coffee'' = ''Coffee''"
    by (simp add: trim_def is_ws_def)
  have i: "string_of_int 1730682000000 = ''1730682000000''"
    by (simp add: string_of_int_def string_of_nat.simps digit_char_def)
  have t: "before_T (toISOString 1730682000000) = ''2024-11-04''"
    by (simp add: before_T_def toISOString_def civil_from_days_def Let_def pad_def
        msPerDay_def string_of_nat.simps digit_char_def cong: let_weak_cong)
  have a: "addExpense 1730682000000 1730682000000
        \<lparr> expenses = [], description_st = ''Coffee'', amount_st = ''10'',
          category_st = ''Food'' \<rparr> =
      (Toast ''Success'' ''Expense added successfully'' Default,
       \<lparr> expenses =
           [\<lparr> ident = ''1730682000000'', description = ''Coffee'', amount = Fin 10,
              category = ''Food'', date = ''2024-11-04'' \<rparr>],
         description_st = [], amount_st = [], category_st = ''Food'' \<rparr>)"
    by (simp add: addExpense_def d i t parseFloat_10 trim_def is_ws_def)
  from l a show ?thesis by blast
qed

text \<open>
  C2. \<open>addExpense\<close> rejects an empty description with amount \<open>10\<close>, the description
  \<open>Coffee\<close> with amount \<open>-5\<close> and the description \<open>Coffee\<close> with amount \<open>abc\<close>: each
  time it shows an error notification and the state, with its list of expenses, is the
  one it started from.
\<close>

theorem addExpense_rejects:
  "addExpense now_id now_date
      \<lparr> expenses = xs, description_st = '''', amount_st = ''10'', category_st = c \<rparr> =
     (Toast ''Error'' ''Please fill in all fields'' Destructive,
      \<lparr> expenses = xs, description_st = '''', amount_st = ''10'', category_st = c \<rparr>)
   \<and> addExpense now_id now_date
      \<lparr> expenses = xs, description_st = ''Coffee'', amount_st = ''-5'', category_st = c \<rparr> =
     (Toast ''Error'' ''Please enter a valid amount'' Destructive,
      \<lparr> expenses = xs, description_st = ''Coffee'', amount_st = ''-5'', category_st = c \<rparr>)
   \<and> addExpense now_id now_date
      \<lparr> expenses = xs, description_st = ''Coffee'', amount_st = ''abc'', category_st = c \<rparr> =
     (Toast ''Error'' ''Please enter a valid amount'' Destructive,
      \<lparr> expenses = xs, description_st = ''Coffee'', amount_st = ''abc'', category_st = c \<rparr>)"
  by (simp add: addExpense_def parseFloat_minus_5 parseFloat_abc trim_def is_ws_def)

text \<open>
  The category of the form is \<open>Food\<close> at the start and after every addition, and is
  otherwise what the selection list delivers, one of the seven. \<open>addExpense\<close> and
  \<open>deleteExpense\<close> keep it among the seven.
\<close>

lemma category_st_kept:
  "category_st initial \<in> set CATEGORIES"
  "category_st s \<in> set CATEGORIES \<Longrightarrow>
     category_st (snd (addExpense now_id now_date s)) \<in> set CATEGORIES"
  "category_st s \<in> set CATEGORIES \<Longrightarrow> category_st (snd (deleteExpense i s)) \<in> set CATEGORIES"
  by (simp_all add: initial_def addExpense_def deleteExpense_def Let_def CATEGORIES_def)

text \<open>
  C3, as stated, fails: the amount is only tested with \<open>isNaN\<close> and \<open><= 0\<close>. The amount
  text \<open>Infinity\<close> parses to a number that is neither NaN nor at most 0, and an expense
  whose amount is not finite is stored.
\<close>

theorem addExpense_infinite_counterexample:
  "parseFloat ''Infinity'' = PInf
   \<and> addExpense 1000 1000
        \<lparr> expenses = [], description_st = ''Coffee'', amount_st = ''Infinity'',
          category_st = ''Food'' \<rparr> =
      (Toast ''Success'' ''Expense added successfully'' Default,
       \<lparr> expenses =
           [\<lparr> ident = ''1000'', description = ''Coffee'', amount = PInf,
              category = ''Food'', date = ''1970-01-01'' \<rparr>],
         description_st = [], amount_st = [], category_st = ''Food'' \<rparr>)"
proof -
  have i: "string_of_int 1000 = ''1000''"
    by (simp add: string_of_int_def string_of_nat.simps digit_char_def)
  have t: "before_T (toISOString 1000) = ''1970-01-01''"
    by (simp add: before_T_def toISOString_def civil_from_days_def Let_def pad_def
        msPerDay_def string_of_nat.simps digit_char_def cong: let_weak_cong)
  show ?thesis
    by (simp add: addExpense_def parseFloat_Infinity i t trim_def is_ws_def)
qed

text \<open>
  C3, amended. \<open>addExpense\<close> shows an error and leaves the state as it is exactly when
  the description is empty after trimming or \<open>parseFloat\<close> does not read the amount as
  a number greater than zero (an empty amount reads as NaN); \<open>+Infinity\<close> is such a
  number. Only the inputs that pass these checks change the list, and they make it one
  record longer. The category of the form is one of the seven, and so is then the
  category of the new record.
\<close>

theorem addExpense_validation:
  "((\<exists>msg. addExpense now_id now_date s = (Toast ''Error'' msg Destructive, s))
      \<longleftrightarrow> (trim (description_st s) = [] \<or> \<not> gt_zero (parseFloat (amount_st s))))
   \<and> (length (expenses (snd (addExpense now_id now_date s))) = Suc (length (expenses s))
      \<longleftrightarrow> (trim (description_st s) \<noteq> [] \<and> gt_zero (parseFloat (amount_st s))))
   \<and> (expenses (snd (addExpense now_id now_date s)) \<noteq> expenses s
      \<longleftrightarrow> (trim (description_st s) \<noteq> [] \<and> gt_zero (parseFloat (amount_st s))))
   \<and> (category_st s \<in> set CATEGORIES \<longrightarrow>
        expenses (snd (addExpense now_id now_date s)) \<noteq> expenses s \<longrightarrow>
        category (hd (expenses (snd (addExpense now_id now_date s)))) \<in> set CATEGORIES)"
  using gt_zero_parseFloat_not_blank [of "amount_st s"]
  by (auto simp add: addExpense_def gt_zero_iff Let_def)

theorem addExpense_validation_witness:
  "(\<exists>msg. addExpense 1000 1000
        \<lparr> expenses = [], description_st = ''Coffee'', amount_st = ''-5'',
          category_st = ''Food'' \<rparr> =
      (Toast ''Error'' msg Destructive,
       \<lparr> expenses = [], description_st = ''Coffee'', amount_st = ''-5'',
         category_st = ''Food'' \<rparr>))
   \<and> length (expenses (snd (addExpense 1000 1000
        \<lparr> expenses = [], description_st = ''Coffee'', amount_st = ''Infinity'',
          category_st = ''Transport'' \<rparr>))) = Suc 0
   \<and> ''Transport'' \<in> set CATEGORIES
   \<and> category (hd (expenses (snd (addExpense 1000 1000
        \<lparr> expenses = [], description_st = ''Coffee'', amount_st = ''Infinity'',
          category_st = ''Transport'' \<rparr>)))) \<in> set CATEGORIES"
  using addExpense_validation [of 1000 1000
      "\<lparr> expenses = [], description_st = ''Coffee'', amount_st = ''-5'',
         category_st = ''Food'' \<rparr>"]
    addExpense_validation [of 1000 1000
      "\<lparr> expenses = [], description_st = ''Coffee'', amount_st = ''Infinity'',
         category_st = ''Transport'' \<rparr>"]
  by (simp add: parseFloat_minus_5 parseFloat_Infinity trim_def is_ws_def CATEGORIES_def)

text \<open>
  C10. An amount text that goes on after a decimal literal is accepted when the literal
  has a value greater than zero. Whatever the literal (digits, maybe a point and
  digits, maybe an exponent), whatever white space and \<open>+\<close> comes before it and whatever
  text that does not continue the literal comes after it, \<open>parseFloat\<close> gives the value
  of the literal, rounded to binary64, and \<open>addExpense\<close> succeeds and stores that value
  as the amount. With the amount \<open>10abc\<close> it stores 10.
\<close>

theorem addExpense_numeric_prefix:
  assumes "lit_ok l" and "stops l r" and "list_all is_ws w" and "sg = [] \<or> sg = ''+''"
    and "gt_zero (round_double (lit_value l))" and "trim d \<noteq> []"
  shows "parseFloat (w @ sg @ lit_text l @ r) = round_double (lit_value l)
   \<and> addExpense now_id now_date
        \<lparr> expenses = xs, description_st = d, amount_st = w @ sg @ lit_text l @ r,
          category_st = c \<rparr> =
      (Toast ''Success'' ''Expense added successfully'' Default,
       \<lparr> expenses =
           \<lparr> ident = string_of_int now_id, description = trim d,
             amount = round_double (lit_value l), category = c,
             date = before_T (toISOString now_date) \<rparr> # xs,
         description_st = [], amount_st = [], category_st = ''Food'' \<rparr>)
   \<and> parseFloat ''10abc'' = Fin 10
   \<and> addExpense now_id now_date
        \<lparr> expenses = xs, description_st = ''Coffee'', amount_st = ''10abc'',
          category_st = c \<rparr> =
      (Toast ''Success'' ''Expense added successfully'' Default,
       \<lparr> expenses =
           \<lparr> ident = string_of_int now_id, description = ''Coffee'', amount = Fin 10,
             category = c, date = before_T (toISOString now_date) \<rparr> # xs,
         description_st = [], amount_st = [], category_st = ''Food'' \<rparr>)"
proof -
  have p: "parseFloat (w @ sg @ lit_text l @ r) = round_double (lit_value l)"
    using parseFloat_literal [OF assms(1,2,3), of sg] assms(4) by auto
  with assms(5) have g: "gt_zero (parseFloat (w @ sg @ lit_text l @ r))" by simp
  then have nb: "trim (w @ sg @ lit_text l @ r) \<noteq> []"
    by (rule gt_zero_parseFloat_not_blank)
  have general: "addExpense now_id now_date
        \<lparr> expenses = xs, description_st = d, amount_st = w @ sg @ lit_text l @ r,
          category_st = c \<rparr> =
      (Toast ''Success'' ''Expense added successfully'' Default,
       \<lparr> expenses =
           \<lparr> ident = string_of_int now_id, description = trim d,
             amount = round_double (lit_value l), category = c,
             date = before_T (toISOString now_date) \<rparr> # xs,
         description_st = [], amount_st = [], category_st = ''Food'' \<rparr>)"
    using assms(6) nb g by (simp add: addExpense_def Let_def gt_zero_iff p)
  have inst: "addExpense now_id now_date
        \<lparr> expenses = xs, description_st = ''Coffee'', amount_st = ''10abc'',
          category_st = c \<rparr> =
      (Toast ''Success'' ''Expense added successfully'' Default,
       \<lparr> expenses =
           \<lparr> ident = string_of_int now_id, description = ''Coffee'', amount = Fin 10,
             category = c, date = before_T (toISOString now_date) \<rparr> # xs,
         description_st = [], amount_st = [], category_st = ''Food'' \<rparr>)"
    by (simp add: addExpense_def parseFloat_10abc trim_def is_ws_def)
  from p general inst parseFloat_10abc show ?thesis by blast
qed

theorem addExpense_numeric_prefix_witness:
  "lit_ok (Literal ''1'' NoFrac (Exp CHR ''e'' [] ''3''))
   \<and> stops (Literal ''1'' NoFrac (Exp CHR ''e'' [] ''3'')) ''abc''
   \<and> list_all is_ws '' ''
   \<and> gt_zero (round_double (lit_value (Literal ''1'' NoFrac (Exp CHR ''e'' [] ''3''))))
   \<and> trim ''Coffee'' \<noteq> []
   \<and> parseFloat '' 1e3abc'' = Fin 1000
   \<and> addExpense 1000 1000
        \<lparr> expenses = [], description_st = ''Coffee'', amount_st = '' 1e3abc'',
          category_st = ''Food'' \<rparr> =
      (Toast ''Success'' ''Expense added successfully'' Default,
       \<lparr> expenses =
           [\<lparr> ident = ''1000'', description = ''Coffee'', amount = Fin 1000,
              category = ''Food'', date = ''1970-01-01'' \<rparr>],
         description_st = [], amount_st = [], category_st = ''Food'' \<rparr>)"
proof -
  have ok: "lit_ok (Literal ''1'' NoFrac (Exp CHR ''e'' [] ''3''))"
    by (simp add: is_digit_def)
  have st: "stops (Literal ''1'' NoFrac (Exp CHR ''e'' [] ''3'')) ''abc''"
    by (simp add: is_digit_def)
  have ws: "list_all is_ws '' ''"
    by (simp add: is_ws_def)
  have v: "round_double (lit_value (Literal ''1'' NoFrac (Exp CHR ''e'' [] ''3''))) = Fin 1000"
    by (simp add: decimal_def round_eval cong: let_weak_cong)
  have d: "trim ''Coffee'' = ''Coffee''"
    by (simp add: trim_def is_ws_def)
  have i: "string_of_int 1000 = ''1000''"
    by (simp add: string_of_int_def string_of_nat.simps digit_char_def)
  have t: "before_T (toISOString 1000) = ''1970-01-01''"
    by (simp add: before_T_def toISOString_def civil_from_days_def Let_def pad_def
        msPerDay_def string_of_nat.simps digit_char_def cong: let_weak_cong)
  have g: "gt_zero (round_double (lit_value (Literal ''1'' NoFrac (Exp CHR ''e'' [] ''3''))))"
    unfolding v by simp
  have nb: "trim ''Coffee'' \<noteq> []"
    unfolding d by simp
  have amount_text: "'' '' @ [] @ lit_text (Literal ''1'' NoFrac (Exp CHR ''e'' [] ''3'')) @ ''abc''
      = '' 1e3abc''"
    by simp
  from addExpense_numeric_prefix [OF ok st ws _ g nb, of "[]" 1000 1000 "[]" "''Food''"]
  have "parseFloat '' 1e3abc'' = Fin 1000
   \<and> addExpense 1000 1000
        \<lparr> expenses = [], description_st = ''Coffee'', amount_st = '' 1e3abc'',
          category_st = ''Food'' \<rparr> =
      (Toast ''Success'' ''Expense added successfully'' Default,
       \<lparr> expenses =
           [\<lparr> ident = ''1000'', description = ''Coffee'', amount = Fin 1000,
              category = ''Food'', date = ''1970-01-01'' \<rparr>],
         description_st = [], amount_st = [], category_st = ''Food'' \<rparr>)"
    unfolding amount_text v d i t by simp
  with ok st ws g nb show ?thesis by blast
qed

section \<open>Deleting an expense\<close>

text \<open>
  C4. \<open>deleteExpense\<close> keeps, in their order, exactly the records whose id differs from
  the given one, so no record with that id remains and every other record stays. It
  always shows the notification \<open>Deleted\<close>, never an error. When no record has the id
  the state is unchanged; when one has it and the ids are distinct, the list gets one
  record shorter.
\<close>

theorem deleteExpense_removes:
  "fst (deleteExpense i s) = Toast ''Deleted'' ''Expense removed successfully'' Default
   \<and> expenses (snd (deleteExpense i s)) = filter (\<lambda>e. ident e \<noteq> i) (expenses s)
   \<and> i \<notin> ident ` set (expenses (snd (deleteExpense i s)))
   \<and> (\<forall>e \<in> set (expenses s). ident e \<noteq> i \<longrightarrow> e \<in> set (expenses (snd (deleteExpense i s))))
   \<and> (i \<notin> ident ` set (expenses s) \<longrightarrow> snd (deleteExpense i s) = s)
   \<and> (i \<in> ident ` set (expenses s) \<longrightarrow> distinct (map ident (expenses s)) \<longrightarrow>
        Suc (length (expenses (snd (deleteExpense i s)))) = length (expenses s))"
proof -
  have absent: "filter (\<lambda>e. ident e \<noteq> i) xs = xs" if "i \<notin> ident ` set xs" for xs :: "Expense list"
    using that by (induction xs) auto
  have present: "Suc (length (filter (\<lambda>e. ident e \<noteq> i) xs)) = length xs"
    if "i \<in> ident ` set xs" "distinct (map ident xs)" for xs :: "Expense list"
    using that
  proof (induction xs)
    case Nil
    then show ?case by simp
  next
    case (Cons x xs)
    show ?case
    proof (cases "ident x = i")
      case True
      with Cons.prems have "i \<notin> ident ` set xs" by auto
      with True show ?thesis by (simp add: absent)
    next
      case False
      with Cons show ?thesis by auto
    qed
  qed
  show ?thesis
    by (auto simp add: deleteExpense_def absent present)
qed

theorem deleteExpense_removes_witness:
  "snd (deleteExpense ''7''
      \<lparr> expenses = [\<lparr> ident = ''5'', description = ''Tea'', amount = Fin 2,
                      category = ''Food'', date = ''2024-02-01'' \<rparr>],
        description_st = [], amount_st = [], category_st = ''Food'' \<rparr>) =
      \<lparr> expenses = [\<lparr> ident = ''5'', description = ''Tea'', amount = Fin 2,
                      category = ''Food'', date = ''2024-02-01'' \<rparr>],
        description_st = [], amount_st = [], category_st = ''Food'' \<rparr>
   \<and> Suc (length (expenses (snd (deleteExpense ''5''
      \<lparr> expenses = [\<lparr> ident = ''5'', description = ''Tea'', amount = Fin 2,
                      category = ''Food'', date = ''2024-02-01'' \<rparr>],
        description_st = [], amount_st = [], category_st = ''Food'' \<rparr>)))) = 1"
  using deleteExpense_removes [of "''7''"
      "\<lparr> expenses = [\<lparr> ident = ''5'', description = ''Tea'', amount = Fin 2,
                      category = ''Food'', date = ''2024-02-01'' \<rparr>],
        description_st = [], amount_st = [], category_st = ''Food'' \<rparr>"]
    deleteExpense_removes [of "''5''"
      "\<lparr> expenses = [\<lparr> ident = ''5'', description = ''Tea'', amount = Fin 2,
                      category = ''Food'', date = ''2024-02-01'' \<rparr>],
        description_st = [], amount_st = [], category_st = ''Food'' \<rparr>"]
  by simp

section \<open>Uniqueness of ids\<close>

lemma step_ids:
  "set (map ident (expenses (step ev s))) \<subseteq>
     set (map ident (expenses s)) \<union> string_of_int ` set (add_times [ev])"
  by (cases ev) (auto simp add: addExpense_def deleteExpense_def Let_def)

lemma step_distinct:
  assumes "distinct (map ident (expenses s))"
    and "string_of_int ` set (add_times [ev]) \<inter> set (map ident (expenses s)) = {}"
  shows "distinct (map ident (expenses (step ev s)))"
  using assms
  by (cases ev) (auto simp add: addExpense_def deleteExpense_def Let_def distinct_map_filter)

lemma run_distinct:
  assumes "distinct (map ident (expenses s))"
    and "set (map ident (expenses s)) \<subseteq> string_of_int ` T"
    and "distinct (add_times evs)"
    and "set (add_times evs) \<inter> T = {}"
  shows "distinct (map ident (expenses (run evs s)))"
  using assms
proof (induction evs arbitrary: s T)
  case Nil
  then show ?case by (simp add: run_def)
next
  case (Cons ev evs)
  have run: "run (ev # evs) s = run evs (step ev s)"
    by (simp add: run_def)
  have fresh: "string_of_int ` set (add_times [ev]) \<inter> set (map ident (expenses s)) = {}"
  proof -
    have "set (add_times [ev]) \<inter> T = {}"
      using Cons.prems(4) by (cases ev) auto
    then have "string_of_int ` set (add_times [ev]) \<inter> string_of_int ` T = {}"
      using string_of_int_inj by blast
    with Cons.prems(2) show ?thesis by blast
  qed
  have d: "distinct (map ident (expenses (step ev s)))"
    using Cons.prems(1) fresh by (rule step_distinct)
  have sub: "set (map ident (expenses (step ev s))) \<subseteq> string_of_int ` (T \<union> set (add_times [ev]))"
    using step_ids [of ev s] Cons.prems(2) by blast
  have rest: "distinct (add_times evs)"
    "set (add_times evs) \<inter> (T \<union> set (add_times [ev])) = {}"
    using Cons.prems(3,4) by (cases ev; auto)+
  show ?case
    unfolding run using Cons.IH [OF d sub rest] .
qed

text \<open>
  C9, as stated, fails: the id is the decimal numeral of \<open>Date.now()\<close>, so two expenses
  added at the same millisecond get the same id.
\<close>

theorem ids_not_unique_counterexample:
  "\<not> distinct (map ident (expenses
       (run [Add ''Coffee'' ''3'' ''Food'' 1000 1000, Add ''Tea'' ''2'' ''Food'' 1000 1000]
          initial)))"
proof -
  have p3: "parseFloat ''3'' = Fin 3"
    by (simp add: parse_eval round_eval cong: let_weak_cong)
  have p2: "parseFloat ''2'' = Fin 2"
    by (simp add: parse_eval round_eval cong: let_weak_cong)
  show ?thesis
    by (simp add: run_def initial_def addExpense_def p3 p2 trim_def is_ws_def)
qed

text \<open>
  C9, amended. In every state reached from the empty list by additions and deletions,
  the ids are pairwise distinct provided the readings of \<open>Date.now()\<close> at the additions
  are pairwise distinct; deletions never break this.
\<close>

theorem ids_unique_if_clock_advances:
  "distinct (add_times evs) \<Longrightarrow> distinct (map ident (expenses (run evs initial)))"
  using run_distinct [of initial "{}" evs] by (simp add: initial_def)

theorem ids_unique_if_clock_advances_witness:
  "distinct (add_times [Add ''Coffee'' ''3'' ''Food'' 1000 1000, Delete ''5'',
        Add ''Tea'' ''2'' ''Food'' 1001 1001])
   \<and> map ident (expenses
         (run [Add ''Coffee'' ''3'' ''Food'' 1000 1000, Delete ''5'',
               Add ''Tea'' ''2'' ''Food'' 1001 1001] initial)) = [''1001'', ''1000'']
   \<and> distinct (map ident (expenses
         (run [Add ''Coffee'' ''3'' ''Food'' 1000 1000, Delete ''5'',
               Add ''Tea'' ''2'' ''Food'' 1001 1001] initial)))"
proof -
  have p3: "parseFloat ''3'' = Fin 3"
    by (simp add: parse_eval round_eval cong: let_weak_cong)
  have p2: "parseFloat ''2'' = Fin 2"
    by (simp add: parse_eval round_eval cong: let_weak_cong)
  have i: "string_of_int 1000 = ''1000''" "string_of_int 1001 = ''1001''"
    by (simp_all add: string_of_int_def string_of_nat.simps digit_char_def)
  have ids: "map ident (expenses
         (run [Add ''Coffee'' ''3'' ''Food'' 1000 1000, Delete ''5'',
               Add ''Tea'' ''2'' ''Food'' 1001 1001] initial)) = [''1001'', ''1000'']"
    by (simp add: run_def initial_def addExpense_def deleteExpense_def p3 p2 i trim_def
        is_ws_def)
  show ?thesis
    using ids_unique_if_clock_advances [of "[Add ''Coffee'' ''3'' ''Food'' 1000 1000,
        Delete ''5'', Add ''Tea'' ''2'' ''Food'' 1001 1001]"] ids
    by simp
qed

section \<open>Totals\<close>

lemma foldl_num_add_exact:
  "running_exact acc (amounts xs) \<Longrightarrow> list_all (\<lambda>e. isFin (amount e)) xs \<Longrightarrow>
     foldl (\<lambda>sum e. num_add sum (amount e)) (Fin acc) xs = Fin (acc + sum_list (amounts xs))"
proof (induction xs arbitrary: acc)
  case Nil
  then show ?case by (simp add: amounts_def)
next
  case (Cons x xs)
  from Cons.prems(2) obtain q where q: "amount x = Fin q"
    by (cases "amount x") simp_all
  from Cons.prems(1) q have r: "round_double (acc + q) = Fin (acc + q)"
    and rest: "running_exact (acc + q) (amounts xs)"
    by (simp_all add: amounts_def is_binary64_def)
  from Cons.prems(2) have fin: "list_all (\<lambda>e. isFin (amount e)) xs" by simp
  show ?case
    using Cons.IH [OF rest fin] q r by (simp add: amounts_def add.assoc)
qed

lemma running_exact_whole:
  assumes "0 \<le> a" "\<forall>n \<in> set ns. 0 \<le> n" "a + sum_list ns < 2 ^ 53"
  shows "running_exact (of_int a) (map of_int ns)"
  using assms
proof (induction ns arbitrary: a)
  case Nil
  then show ?case by simp
next
  case (Cons n ns)
  from Cons.prems have n: "0 \<le> n" and rest: "\<forall>k \<in> set ns. 0 \<le> k" by simp_all
  have "0 \<le> sum_list ns"
    using rest by (simp add: sum_list_nonneg)
  with Cons.prems n have b: "0 \<le> a + n" "a + n < 2 ^ 53" by simp_all
  have e: "rat_of_int a + of_int n = of_int (a + n)" by simp
  have "is_binary64 (of_int (a + n))"
    using b by (rule is_binary64_int)
  moreover have "running_exact (of_int (a + n)) (map of_int ns)"
    using Cons.prems by (intro Cons.IH b(1) rest) (simp add: add.assoc)
  ultimately show ?case
    by (simp only: list.map running_exact.simps e)
qed

text \<open>
  In particular the total is the arithmetic sum, whatever the order, when the amounts
  are whole numbers that are not negative and their sum is below \<open>2^53\<close>.
\<close>

lemma totalExpenses_whole:
  assumes "map amount xs = map (\<lambda>n. Fin (of_int n)) ns"
    and "\<forall>n \<in> set ns. 0 \<le> n" and "sum_list ns < 2 ^ 53"
  shows "totalExpenses xs = Fin (of_int (sum_list ns))"
proof -
  have am: "amounts xs = map of_int ns"
  proof -
    have "amounts xs = map value_of (map amount xs)"
      by (simp add: amounts_def comp_def)
    then show ?thesis by (simp add: assms(1) comp_def)
  qed
  have fin: "list_all (\<lambda>e. isFin (amount e)) xs"
  proof -
    have "list_all isFin (map amount xs)"
      by (simp add: assms(1) list_all_iff)
    then show ?thesis by (simp add: list_all_iff)
  qed
  have "running_exact 0 (amounts xs)"
    using running_exact_whole [of 0 ns] assms(2,3) by (simp add: am)
  moreover have "sum_list (map rat_of_int ns) = of_int (sum_list ns)"
    by (induction ns) simp_all
  ultimately show ?thesis
    using foldl_num_add_exact [of 0 xs] fin by (simp add: totalExpenses_def am)
qed

text \<open>
  C5, as stated, fails: the total is a left-to-right sum in binary64 arithmetic, which
  rounds after every addition, so it depends on the order of the records and differs
  from the arithmetic sum. The amounts 0.1, 0.2 and 0.3 give 0.6000000000000001 in
  this order and 0.6 in the opposite one.
\<close>

theorem totalExpenses_order_counterexample:
  "totalExpenses
     [\<lparr> ident = ''1'', description = ''a'', amount = parseFloat ''0.1'', category = ''Food'',
        date = ''2024-02-01'' \<rparr>,
      \<lparr> ident = ''2'', description = ''b'', amount = parseFloat ''0.2'', category = ''Food'',
        date = ''2024-02-01'' \<rparr>,
      \<lparr> ident = ''3'', description = ''c'', amount = parseFloat ''0.3'', category = ''Food'',
        date = ''2024-02-01'' \<rparr>]
   \<noteq> totalExpenses
     [\<lparr> ident = ''3'', description = ''c'', amount = parseFloat ''0.3'', category = ''Food'',
        date = ''2024-02-01'' \<rparr>,
      \<lparr> ident = ''2'', description = ''b'', amount = parseFloat ''0.2'', category = ''Food'',
        date = ''2024-02-01'' \<rparr>,
      \<lparr> ident = ''1'', description = ''a'', amount = parseFloat ''0.1'', category = ''Food'',
        date = ''2024-02-01'' \<rparr>]"
  by (simp add: totalExpenses_def parseFloat_01 parseFloat_02 parseFloat_03 round_eval
      cong: let_weak_cong)

text \<open>
  C5, amended. The total of the empty list is 0. When the amounts are finite and every
  running sum from the left is itself a binary64 value (no addition has to round), the
  total is the arithmetic sum of the amounts; two permutations of a list that both
  satisfy this have the same total.
\<close>

theorem totalExpenses_exact:
  "totalExpenses [] = Fin 0
   \<and> (list_all (\<lambda>e. isFin (amount e)) xs \<longrightarrow> running_exact 0 (amounts xs) \<longrightarrow>
        totalExpenses xs = Fin (sum_list (amounts xs)))
   \<and> (list_all (\<lambda>e. isFin (amount e)) xs \<longrightarrow> running_exact 0 (amounts xs) \<longrightarrow>
       list_all (\<lambda>e. isFin (amount e)) ys \<longrightarrow> running_exact 0 (amounts ys) \<longrightarrow>
       mset xs = mset ys \<longrightarrow> totalExpenses xs = totalExpenses ys)"
proof -
  have exact: "totalExpenses zs = Fin (sum_list (amounts zs))"
    if "list_all (\<lambda>e. isFin (amount e)) zs" "running_exact 0 (amounts zs)" for zs
    using foldl_num_add_exact [OF that(2) that(1)] by (simp add: totalExpenses_def)
  have perm: "sum_list (amounts xs) = sum_list (amounts ys)" if "mset xs = mset ys"
  proof -
    have "mset (amounts xs) = mset (amounts ys)"
      using that unfolding amounts_def by (metis mset_map)
    then show ?thesis
      by (metis sum_mset_sum_list)
  qed
  show ?thesis
    using exact [of xs] exact [of ys] perm by (simp add: totalExpenses_def)
qed

theorem totalExpenses_exact_witness:
  "list_all (\<lambda>e. isFin (amount e))
     [\<lparr> ident = ''1'', description = ''a'', amount = Fin 5, category = ''Food'',
        date = ''2024-02-01'' \<rparr>,
      \<lparr> ident = ''2'', description = ''b'', amount = Fin (1 / 4), category = ''Food'',
        date = ''2024-02-01'' \<rparr>,
      \<lparr> ident = ''3'', description = ''c'', amount = Fin 3, category = ''Food'',
        date = ''2024-02-01'' \<rparr>]
   \<and> running_exact 0 (amounts
     [\<lparr> ident = ''1'', description = ''a'', amount = Fin 5, category = ''Food'',
        date = ''2024-02-01'' \<rparr>,
      \<lparr> ident = ''2'', description = ''b'', amount = Fin (1 / 4), category = ''Food'',
        date = ''2024-02-01'' \<rparr>,
      \<lparr> ident = ''3'', description = ''c'', amount = Fin 3, category = ''Food'',
        date = ''2024-02-01'' \<rparr>])
   \<and> totalExpenses
     [\<lparr> ident = ''1'', description = ''a'', amount = Fin 5, category = ''Food'',
        date = ''2024-02-01'' \<rparr>,
      \<lparr> ident = ''2'', description = ''b'', amount = Fin (1 / 4), category = ''Food'',
        date = ''2024-02-01'' \<rparr>,
      \<lparr> ident = ''3'', description = ''c'', amount = Fin 3, category = ''Food'',
        date = ''2024-02-01'' \<rparr>] = Fin (33 / 4)
   \<and> totalExpenses
     [\<lparr> ident = ''3'', description = ''c'', amount = Fin 3, category = ''Food'',
        date = ''2024-02-01'' \<rparr>,
      \<lparr> ident = ''2'', description = ''b'', amount = Fin (1 / 4), category = ''Food'',
        date = ''2024-02-01'' \<rparr>,
      \<lparr> ident = ''1'', description = ''a'', amount = Fin 5, category = ''Food'',
        date = ''2024-02-01'' \<rparr>] = Fin (33 / 4)"
proof -
  define a where "a = \<lparr> ident = ''1'', description = ''a'', amount = Fin 5,
    category = ''Food'', date = ''2024-02-01'' \<rparr>"
  define b where "b = \<lparr> ident = ''2'', description = ''b'', amount = Fin (1 / 4),
    category = ''Food'', date = ''2024-02-01'' \<rparr>"
  define c where "c = \<lparr> ident = ''3'', description = ''c'', amount = Fin 3,
    category = ''Food'', date = ''2024-02-01'' \<rparr>"
  have fin: "list_all (\<lambda>e. isFin (amount e)) [a, b, c]"
    "list_all (\<lambda>e. isFin (amount e)) [c, b, a]"
    by (simp_all add: a_def b_def c_def)
  have r1: "running_exact 0 (amounts [a, b, c])"
    by (simp add: a_def b_def c_def amounts_def is_binary64_def round_eval
        cong: let_weak_cong)
  have r2: "running_exact 0 (amounts [c, b, a])"
    by (simp add: a_def b_def c_def amounts_def is_binary64_def round_eval
        cong: let_weak_cong)
  have m: "mset [a, b, c] = mset [c, b, a]"
    by (simp add: add_mset_commute)
  have s: "sum_list (amounts [a, b, c]) = 33 / 4"
    by (simp add: a_def b_def c_def amounts_def)
  have t1: "totalExpenses [a, b, c] = Fin (sum_list (amounts [a, b, c]))"
    and eq: "totalExpenses [a, b, c] = totalExpenses [c, b, a]"
    using totalExpenses_exact [of "[a, b, c]" "[c, b, a]"] fin r1 r2 m by blast+
  have t2: "totalExpenses [c, b, a] = Fin (33 / 4)"
    using t1 eq s by simp
  have t3: "totalExpenses [a, b, c] = Fin (33 / 4)"
    using t1 s by simp
  from fin(1) r1 t2 t3 show ?thesis
    unfolding a_def b_def c_def by blast
qed

section \<open>The total of the month\<close>

text \<open>
  The instant 1707584400000 is 2024-02-10, 12:00 local time, five hours west of
  Greenwich.
\<close>

lemma today_is_2024_02_10:
  "toISOString 1707584400000 = ''2024-02-10T17:00:00.000Z''
   \<and> getMonth (\<lambda>t. - 18000000) 1707584400000 = 1
   \<and> getFullYear (\<lambda>t. - 18000000) 1707584400000 = 2024
   \<and> civil_from_days ((1707584400000 - 18000000) div msPerDay) = (2024, 2, 10)"
  by (simp add: toISOString_def getMonth_def getFullYear_def civil_from_days_def pad_def
      msPerDay_def string_of_nat.simps digit_char_def Let_def numeral_2_eq_2
      cong: let_weak_cong)

text \<open>
  With Greenwich time as local time, the records dated 2024-01-15 (10) and 2024-02-01
  (20) give 20 on that day.
\<close>

lemma monthlyExpenses_at_Greenwich:
  "monthlyExpenses (\<lambda>t. 0) 1707584400000
     [\<lparr> ident = ''1'', description = ''a'', amount = Fin 10, category = ''Food'',
        date = ''2024-01-15'' \<rparr>,
      \<lparr> ident = ''2'', description = ''b'', amount = Fin 20, category = ''Food'',
        date = ''2024-02-01'' \<rparr>] = Fin 20"
  by (simp add: monthlyExpenses_def in_month_def Date_parse_def days_from_civil_def
      is_digit_def digits_val_def digit_val_def getMonth_def
      getFullYear_def civil_from_days_def msPerDay_def round_eval
      cong: let_weak_cong)

text \<open>
  C6 says that \<open>monthlyExpenses\<close> sums the amounts of the records dated in the calendar
  month and year of the reference date, so that the records dated 2024-01-15 (10) and
  2024-02-01 (20) give 20 with the reference date 2024-02-10. The page reads the
  date-only text of a record as midnight UTC and then takes month and year of that
  instant in local time. Five hours west of Greenwich, midnight UTC of 2024-02-01 is
  19:00 on 2024-01-31, the record counts for January, and the total for 2024-02-10 is
  0, not 20.
\<close>

theorem monthlyExpenses_west_of_Greenwich:
  "monthlyExpenses (\<lambda>t. - 18000000) 1707584400000
     [\<lparr> ident = ''1'', description = ''a'', amount = Fin 10, category = ''Food'',
        date = ''2024-01-15'' \<rparr>,
      \<lparr> ident = ''2'', description = ''b'', amount = Fin 20, category = ''Food'',
        date = ''2024-02-01'' \<rparr>] = Fin 0"
  by (simp add: monthlyExpenses_def in_month_def Date_parse_def days_from_civil_def
      is_digit_def digits_val_def digit_val_def getMonth_def
      getFullYear_def civil_from_days_def msPerDay_def Let_def cong: let_weak_cong)

section \<open>The top category\<close>

text \<open>Sorting rearranges: the sorted list has the entries of the given one.\<close>

lemma mset_insert_sorted: "mset (insert_sorted cmp x ys) = add_mset x (mset ys)"
  by (induction ys) simp_all

lemma mset_js_sort: "mset (js_sort cmp xs) = mset xs"
  by (induction xs) (simp_all add: js_sort_def mset_insert_sorted)









section \<open>Saving and loading\<close>

lemma expense_of_json_of_expense:
  "isFin (amount e) \<Longrightarrow> expense_of_json (json_of_expense e) = Some e"
  by (cases "amount e") (simp_all add: expense_of_json_def json_of_expense_def)

lemma expenses_of_json_stringify:
  assumes "\<forall>e \<in> set xs. isFin (amount e)"
  shows "expenses_of_json (JArray (map json_of_expense xs)) = Some xs"
proof -
  have "those (map expense_of_json (map json_of_expense xs)) = Some xs"
    using assms by (induction xs) (simp_all add: expense_of_json_of_expense)
  then show ?thesis
    by (simp add: expenses_of_json_def)
qed

text \<open>
  C8, as stated, fails for a list with an amount that is not finite, such as the one
  \<open>addExpense\<close> stores for the amount text \<open>Infinity\<close>: \<open>JSON.stringify\<close> writes \<open>null\<close> for
  the amount, and what is loaded is not the list that was saved.
\<close>

theorem load_save_infinite_counterexample:
  "load (save [\<lparr> ident = ''1000'', description = ''Coffee'', amount = PInf,
                  category = ''Food'', date = ''1970-01-01'' \<rparr>] []) []
   \<noteq> Inr [\<lparr> ident = ''1000'', description = ''Coffee'', amount = PInf,
            category = ''Food'', date = ''1970-01-01'' \<rparr>]"
  by (simp add: load_def save_def getItem_def setItem_def JSON_stringify_def
      expenses_of_json_def expense_of_json_def json_of_expense_def)

text \<open>
  C8, amended. For every list of expenses whose amounts are finite, loading what was
  saved gives the same list: the same records with the same fields in the same order,
  whatever the store held before. When the store has no entry for the key, or the
  entry is not JSON text, the list stays empty.
\<close>

theorem load_save_roundtrip:
  "((\<forall>e \<in> set xs. isFin (amount e)) \<longrightarrow> load (save xs st) ys = Inr xs)
   \<and> (getItem ''expenses'' st = None \<longrightarrow> load st [] = Inr [])
   \<and> (getItem ''expenses'' st = Some Malformed \<longrightarrow> load st [] = Inr [])"
  using expenses_of_json_stringify [of xs]
  by (simp add: load_def save_def getItem_def setItem_def JSON_stringify_def)

theorem load_save_roundtrip_witness:
  "isFin (Fin 10)
   \<and> load (save [\<lparr> ident = ''1000'', description = ''Coffee'', amount = Fin 10,
                    category = ''Food'', date = ''1970-01-01'' \<rparr>]
             [(''expenses'', Malformed)]) []
     = Inr [\<lparr> ident = ''1000'', description = ''Coffee'', amount = Fin 10,
              category = ''Food'', date = ''1970-01-01'' \<rparr>]
   \<and> getItem ''expenses'' [(''theme'', Denotes (JString ''dark''))] = None
   \<and> load [(''theme'', Denotes (JString ''dark''))] [] = Inr []
   \<and> getItem ''expenses'' [(''expenses'', Malformed)] = Some Malformed
   \<and> load [(''expenses'', Malformed)] [] = Inr []"
  using load_save_roundtrip [of "[\<lparr> ident = ''1000'', description = ''Coffee'',
        amount = Fin 10, category = ''Food'', date = ''1970-01-01'' \<rparr>]"
      "[(''expenses'', Malformed)]" "[]"]
    load_save_roundtrip [of "[]" "[(''theme'', Denotes (JString ''dark''))]" "[]"]
    load_save_roundtrip [of "[]" "[(''expenses'', Malformed)]" "[]"]
  by (simp add: getItem_def)

end
